theory Spec2Isabelle
  imports Complex_Main "HOL-Library.AList" "HOL-Library.Multiset"
begin

section \<open>JavaScript values and strings\<close>

text \<open>
  The generator of \<^verbatim>\<open>src/index.js\<close> reads Markdown files with a YAML front matter,
  and writes one HTML page per public post and an index page. The values of the front
  matter are JavaScript values. A number is represented by its mathematical value, a
  \<^verbatim>\<open>Date\<close> object by its time value in milliseconds (\<open>None\<close> for an invalid date), a
  plain object by the list of its own enumerable properties in their order.
\<close>

datatype jsnum = NaN | PosInfinity | NegInfinity | Finite rat

datatype jsval =
    JUndefined
  | JNull
  | JBool bool
  | JNum jsnum
  | JStr string
  | JDate "int option"
  | JArr "jsval list"
  | JObj "(string \<times> jsval) list"

type_synonym object = "(string \<times> jsval) list"

text \<open>\<^verbatim>\<open>Boolean(v)\<close>: the falsy values are undefined, null, false, zero, NaN and the empty string.\<close>

fun Boolean :: "jsval \<Rightarrow> bool" where
  "Boolean JUndefined = False"
| "Boolean JNull = False"
| "Boolean (JBool b) = b"
| "Boolean (JNum NaN) = False"
| "Boolean (JNum (Finite r)) = (r \<noteq> 0)"
| "Boolean (JNum _) = True"
| "Boolean (JStr s) = (s \<noteq> [])"
| "Boolean (JDate _) = True"
| "Boolean (JArr _) = True"
| "Boolean (JObj _) = True"

text \<open>Property access \<^verbatim>\<open>o.k\<close>: a missing property reads as undefined.\<close>

definition getProp :: "object \<Rightarrow> string \<Rightarrow> jsval" where
  "getProp obj k = (case map_of obj k of None \<Rightarrow> JUndefined | Some v \<Rightarrow> v)"

text \<open>
  An object literal \<^verbatim>\<open>{ ...o, k: v }\<close>: the properties of \<open>o\<close>, with \<open>k\<close> overwritten
  where it stands, or added last.
\<close>

definition setProp :: "string \<Rightarrow> jsval \<Rightarrow> object \<Rightarrow> object" where
  "setProp k v obj = AList.update k v obj"

text \<open>
  \<^verbatim>\<open>String.prototype.toLowerCase\<close> on the ASCII letters (a character of a string here is
  a byte; the bytes outside \<open>A\<close> to \<open>Z\<close> are kept), and \<^verbatim>\<open>String.prototype.endsWith\<close>.
\<close>

definition lowerChar :: "char \<Rightarrow> char" where
  "lowerChar c =
     (let n = (of_char c :: nat) in if 65 \<le> n \<and> n \<le> 90 then char_of (n + 32) else c)"

definition toLowerCase :: "string \<Rightarrow> string" where
  "toLowerCase s = map lowerChar s"

definition endsWith :: "string \<Rightarrow> string \<Rightarrow> bool" where
  "endsWith s searchString =
     (length searchString \<le> length s
      \<and> drop (length s - length searchString) s = searchString)"

text \<open>\<^verbatim>\<open>String.prototype.slice(start, end)\<close> for indices inside the string.\<close>

definition slice :: "string \<Rightarrow> nat \<Rightarrow> nat \<Rightarrow> string" where
  "slice s start end' = take (end' - start) (drop start s)"

section \<open>The path module\<close>

text \<open>
  \<^verbatim>\<open>path.basename(path, ext)\<close> of Node.js on POSIX, as \<^verbatim>\<open>lib/path.js\<close> computes it: the
  loop runs over the path from its last character, skips trailing slashes, matches the
  extension from its end, and stops at the slash before the last component. The indices
  \<open>end\<close> and \<open>firstNonSlashEnd\<close> are \<open>-1\<close> while unset, \<open>extIdx\<close> is \<open>-1\<close> once the
  extension has been matched or has failed to match.
\<close>

record basenameState =
  start :: nat
  end' :: int
  matchedSlash :: bool
  extIdx :: int
  firstNonSlashEnd :: int

fun basenameExtLoop :: "string \<Rightarrow> string \<Rightarrow> nat \<Rightarrow> basenameState \<Rightarrow> basenameState" where
  "basenameExtLoop path ext 0 st = st"
| "basenameExtLoop path ext (Suc i) st =
     (let code = path ! i in
      if code = CHR ''/'' then
        (if \<not> matchedSlash st then st\<lparr>start := Suc i\<rparr>
         else basenameExtLoop path ext i st)
      else
        (let st1 = (if firstNonSlashEnd st = -1
                    then st\<lparr>matchedSlash := False, firstNonSlashEnd := int (Suc i)\<rparr>
                    else st);
             st2 = (if 0 \<le> extIdx st1 then
                      (if code = ext ! nat (extIdx st1) then
                         (if extIdx st1 - 1 = -1
                          then st1\<lparr>extIdx := extIdx st1 - 1, end' := int i\<rparr>
                          else st1\<lparr>extIdx := extIdx st1 - 1\<rparr>)
                       else st1\<lparr>extIdx := -1, end' := firstNonSlashEnd st1\<rparr>)
                    else st1)
         in basenameExtLoop path ext i st2))"

fun basenameLoop :: "string \<Rightarrow> nat \<Rightarrow> basenameState \<Rightarrow> basenameState" where
  "basenameLoop path 0 st = st"
| "basenameLoop path (Suc i) st =
     (if path ! i = CHR ''/'' then
        (if \<not> matchedSlash st then st\<lparr>start := Suc i\<rparr>
         else basenameLoop path i st)
      else if end' st = -1 then
        basenameLoop path i (st\<lparr>matchedSlash := False, end' := int (Suc i)\<rparr>)
      else basenameLoop path i st)"

definition basename :: "string \<Rightarrow> string \<Rightarrow> string" where
  "basename path ext =
     (let st0 = \<lparr>start = 0, end' = -1, matchedSlash = True,
                 extIdx = int (length ext) - 1, firstNonSlashEnd = -1\<rparr> in
      if 0 < length ext \<and> length ext \<le> length path then
        (if ext = path then []
         else
           (let st = basenameExtLoop path ext (length path) st0;
                e = (if int (start st) = end' st then firstNonSlashEnd st
                     else if end' st = -1 then int (length path)
                     else end' st)
            in slice path (start st) (nat e)))
      else
        (let st = basenameLoop path (length path) st0 in
         if end' st = -1 then [] else slice path (start st) (nat (end' st))))"

section \<open>External collaborators\<close>

datatype error =
    ENOENT string
  | ENOTDIR string
  | EEXIST string
  | EISDIR string
  | YAMLException string
  | TemplateError string
  | MarkdownError string

text \<open>
  The libraries the generator calls are parameters of the model: the front-matter
  parser (it returns the attributes, as the properties that the object spread of
  \<^verbatim>\<open>parsePost\<close> copies, and the body, or throws on a malformed metadata block), the
  Markdown processor behind \<^verbatim>\<open>markdownToHTML\<close>, the template engine
  (\<^verbatim>\<open>nunjucks.render(path, context)\<close>, with the templates it reads), \<^verbatim>\<open>Date.parse\<close> on
  strings (\<open>None\<close> is NaN), and the conversion of a value that is not a string to a string.
  The run time decides in which order the operations of a \<^verbatim>\<open>Promise.all\<close> complete: the
  last three fields give this order for the deletions of \<^verbatim>\<open>removeFiles\<close>, the reads of
  \<^verbatim>\<open>getPosts\<close> and the writes of \<^verbatim>\<open>build\<close>, each as the list of the positions that
  complete first.
\<close>

record env =
  frontMatter :: "string \<Rightarrow> error + (object \<times> string)"
  remarkProcess :: "jsval \<Rightarrow> error + string"
  nunjucksRender :: "string \<Rightarrow> object \<Rightarrow> error + string"
  dateParse :: "string \<Rightarrow> int option"
  toString :: "jsval \<Rightarrow> string"
  unlinkOrder :: "nat list"
  readOrder :: "nat list"
  writeOrder :: "nat list"

text \<open>
  \<^verbatim>\<open>path.format({ name, ext })\<close> is \<^verbatim>\<open>`${name || ''}${ext || ''}`\<close> when the object has no
  \<open>dir\<close>, \<open>root\<close> or \<open>base\<close>.
\<close>

definition pathFormat :: "env \<Rightarrow> jsval \<Rightarrow> string \<Rightarrow> string" where
  "pathFormat e nm ext =
     (if Boolean nm then (case nm of JStr s \<Rightarrow> s | v \<Rightarrow> toString e v) else []) @ ext"

section \<open>The file system\<close>

text \<open>
  The two directories of the generator, each absent, a regular file, or a directory with
  its entries in the order \<^verbatim>\<open>readdir\<close> lists them. An entry is a regular file with its
  contents or a subdirectory; links and special files are not modelled.
  \<^verbatim>\<open>path.resolve(dirPath, fileName)\<close> is the entry \<open>fileName\<close> of the directory, the file
  names being those of directory entries. The operations fail with the error codes of
  Node.js: \<open>ENOENT\<close> for a missing entry, \<open>ENOTDIR\<close> where a directory is expected,
  \<open>EISDIR\<close> where a regular file is expected, \<open>EEXIST\<close> for a directory to create in the
  place of a file.
\<close>

datatype node = File string | Dir "(string \<times> node) list"

datatype dirPath = postsDirPath | publicDirPath

record fsState =
  postsNode :: "node option"
  publicNode :: "node option"

type_synonym filePath = "dirPath \<times> string"

definition pathResolve :: "dirPath \<Rightarrow> string \<Rightarrow> filePath" where
  "pathResolve d fileName = (d, fileName)"

fun showDir :: "dirPath \<Rightarrow> string" where
  "showDir postsDirPath = ''posts''"
| "showDir publicDirPath = ''public''"

definition showPath :: "filePath \<Rightarrow> string" where
  "showPath p = showDir (fst p) @ ''/'' @ snd p"

fun nodeAt :: "fsState \<Rightarrow> dirPath \<Rightarrow> node option" where
  "nodeAt s postsDirPath = postsNode s"
| "nodeAt s publicDirPath = publicNode s"

fun setNode :: "dirPath \<Rightarrow> node option \<Rightarrow> fsState \<Rightarrow> fsState" where
  "setNode postsDirPath n s = s\<lparr>postsNode := n\<rparr>"
| "setNode publicDirPath n s = s\<lparr>publicNode := n\<rparr>"

record dirent =
  name :: string
  isFile :: bool

fun isFileNode :: "node \<Rightarrow> bool" where
  "isFileNode (File _) = True"
| "isFileNode (Dir _) = False"

definition direntOf :: "string \<times> node \<Rightarrow> dirent" where
  "direntOf en = \<lparr>name = fst en, isFile = isFileNode (snd en)\<rparr>"

text \<open>\<^verbatim>\<open>fs.readdir(dirPath, { withFileTypes: true })\<close>\<close>

definition readdir :: "dirPath \<Rightarrow> fsState \<Rightarrow> error + dirent list" where
  "readdir d s =
     (case nodeAt s d of
        None \<Rightarrow> Inl (ENOENT (showDir d))
      | Some (File _) \<Rightarrow> Inl (ENOTDIR (showDir d))
      | Some (Dir es) \<Rightarrow> Inr (map direntOf es))"

text \<open>\<^verbatim>\<open>fs.mkdir(dirPath, { recursive: true })\<close>: an existing directory is left as it is.\<close>

definition mkdir :: "dirPath \<Rightarrow> fsState \<Rightarrow> (error + unit) \<times> fsState" where
  "mkdir d s =
     (case nodeAt s d of
        None \<Rightarrow> (Inr (), setNode d (Some (Dir [])) s)
      | Some (File _) \<Rightarrow> (Inl (EEXIST (showDir d)), s)
      | Some (Dir _) \<Rightarrow> (Inr (), s))"

definition unlink :: "filePath \<Rightarrow> fsState \<Rightarrow> (error + unit) \<times> fsState" where
  "unlink p s =
     (case nodeAt s (fst p) of
        None \<Rightarrow> (Inl (ENOENT (showPath p)), s)
      | Some (File _) \<Rightarrow> (Inl (ENOTDIR (showPath p)), s)
      | Some (Dir es) \<Rightarrow>
          (case map_of es (snd p) of
             None \<Rightarrow> (Inl (ENOENT (showPath p)), s)
           | Some (Dir _) \<Rightarrow> (Inl (EISDIR (showPath p)), s)
           | Some (File _) \<Rightarrow> (Inr (), setNode (fst p) (Some (Dir (AList.delete (snd p) es))) s)))"

definition readFile :: "filePath \<Rightarrow> fsState \<Rightarrow> error + string" where
  "readFile p s =
     (case nodeAt s (fst p) of
        None \<Rightarrow> Inl (ENOENT (showPath p))
      | Some (File _) \<Rightarrow> Inl (ENOTDIR (showPath p))
      | Some (Dir es) \<Rightarrow>
          (case map_of es (snd p) of
             None \<Rightarrow> Inl (ENOENT (showPath p))
           | Some (Dir _) \<Rightarrow> Inl (EISDIR (showPath p))
           | Some (File fileData) \<Rightarrow> Inr fileData))"

text \<open>\<^verbatim>\<open>fs.writeFile\<close> replaces the contents of a regular file, or adds the file to the directory.\<close>

definition writeFile :: "filePath \<Rightarrow> string \<Rightarrow> fsState \<Rightarrow> (error + unit) \<times> fsState" where
  "writeFile p fileData s =
     (case nodeAt s (fst p) of
        None \<Rightarrow> (Inl (ENOENT (showPath p)), s)
      | Some (File _) \<Rightarrow> (Inl (ENOTDIR (showPath p)), s)
      | Some (Dir es) \<Rightarrow>
          (case map_of es (snd p) of
             Some (Dir _) \<Rightarrow> (Inl (EISDIR (showPath p)), s)
           | _ \<Rightarrow> (Inr (), setNode (fst p) (Some (Dir (AList.update (snd p) (File fileData) es))) s)))"

text \<open>
  \<^verbatim>\<open>Promise.all\<close> over operations started together. The operations run concurrently, and
  each runs to its end, also when another one fails. The program does not fix the order
  in which they complete: it is given by a list of the positions that complete first, in
  this order, and the positions the list does not name follow in the order of the array.
  An operation takes effect when it completes, so of two writes to one file the one that
  completes last stays. The result is the array of the values, in the order of the
  operations, or the error of the operation that failed first.
\<close>

definition completionOrder :: "nat list \<Rightarrow> nat \<Rightarrow> nat list" where
  "completionOrder pref n =
     remdups (filter (\<lambda>i. i < n) pref) @ filter (\<lambda>i. i \<notin> set pref) [0..<n]"

definition scheduled :: "nat list \<Rightarrow> 'a list \<Rightarrow> 'a list" where
  "scheduled pref xs = map (\<lambda>i. xs ! i) (completionOrder pref (length xs))"

definition indexOf :: "nat \<Rightarrow> nat list \<Rightarrow> nat" where
  "indexOf i order = length (takeWhile (\<lambda>j. j \<noteq> i) order)"

fun settleInOrder ::
  "('a \<Rightarrow> fsState \<Rightarrow> (error + 'b) \<times> fsState) \<Rightarrow> 'a list \<Rightarrow> fsState \<Rightarrow> (error + 'b list) \<times> fsState"
where
  "settleInOrder f [] s = (Inr [], s)"
| "settleInOrder f (x # xs) s =
     (case f x s of (r, s1) \<Rightarrow>
        (case settleInOrder f xs s1 of (rs, s2) \<Rightarrow>
           ((case r of
               Inl e \<Rightarrow> Inl e
             | Inr v \<Rightarrow> (case rs of Inl e \<Rightarrow> Inl e | Inr vs \<Rightarrow> Inr (v # vs))), s2)))"

definition promiseAll ::
  "nat list \<Rightarrow> ('a \<Rightarrow> fsState \<Rightarrow> (error + 'b) \<times> fsState) \<Rightarrow> 'a list \<Rightarrow> fsState
   \<Rightarrow> (error + 'b list) \<times> fsState"
where
  "promiseAll pref f xs s =
     (case settleInOrder f (scheduled pref xs) s of
        (Inl err, s1) \<Rightarrow> (Inl err, s1)
      | (Inr vs, s1) \<Rightarrow>
          (Inr (map (\<lambda>i. vs ! indexOf i (completionOrder pref (length xs))) [0..<length xs]), s1))"

text \<open>\<^verbatim>\<open>Array.prototype.map\<close> with a callback that may throw: the first exception ends the map.\<close>

fun mapThrowing :: "('a \<Rightarrow> error + 'b) \<Rightarrow> 'a list \<Rightarrow> error + 'b list" where
  "mapThrowing f [] = Inr []"
| "mapThrowing f (x # xs) =
     (case f x of
        Inl e \<Rightarrow> Inl e
      | Inr y \<Rightarrow> (case mapThrowing f xs of Inl e \<Rightarrow> Inl e | Inr ys \<Rightarrow> Inr (y # ys)))"

section \<open>The generator\<close>

text \<open>\<^verbatim>\<open>getFiles\<close> (index.js, lines 19 to 34)\<close>

definition getFiles :: "dirPath \<Rightarrow> string \<Rightarrow> fsState \<Rightarrow> error + string list" where
  "getFiles d fileExt s =
     (case readdir d s of
        Inl e \<Rightarrow> Inl e
      | Inr dirents \<Rightarrow>
          Inr (map name
                (filter (\<lambda>de. if 0 < length fileExt
                               then endsWith (toLowerCase (name de)) fileExt else True)
                  (filter isFile dirents))))"

text \<open>\<^verbatim>\<open>removeFiles\<close> (lines 37 to 47)\<close>

definition removeFiles ::
  "env \<Rightarrow> dirPath \<Rightarrow> string \<Rightarrow> fsState \<Rightarrow> (error + unit list) \<times> fsState" where
  "removeFiles e d fileExt s =
     (case getFiles d fileExt s of
        Inl err \<Rightarrow> (Inl err, s)
      | Inr fileNames \<Rightarrow>
          promiseAll (unlinkOrder e) (\<lambda>fileName. unlink (pathResolve d fileName)) fileNames s)"

text \<open>\<^verbatim>\<open>parsePost\<close> (lines 53 to 60): the post is \<^verbatim>\<open>{ ...attributes, body, slug }\<close>.\<close>

definition parsePost :: "env \<Rightarrow> string \<Rightarrow> string \<Rightarrow> error + object" where
  "parsePost e fileName fileData =
     (let slug = basename fileName ''.md'' in
      case frontMatter e fileData of
        Inl err \<Rightarrow> Inl err
      | Inr (attributes, body) \<Rightarrow>
          Inr (setProp ''slug'' (JStr slug) (setProp ''body'' (JStr body) attributes)))"

text \<open>\<^verbatim>\<open>getPosts\<close> (lines 66 to 79)\<close>

definition getPosts :: "env \<Rightarrow> dirPath \<Rightarrow> fsState \<Rightarrow> (error + object list) \<times> fsState" where
  "getPosts e d s =
     (case getFiles d ''.md'' s of
        Inl err \<Rightarrow> (Inl err, s)
      | Inr fileNames \<Rightarrow>
          (case promiseAll (readOrder e) (\<lambda>fileName s'. (readFile (pathResolve d fileName) s', s'))
                  fileNames s of
             (Inl err, s1) \<Rightarrow> (Inl err, s1)
           | (Inr fileData, s1) \<Rightarrow>
               (mapThrowing (\<lambda>(fileName, dat). parsePost e fileName dat) (zip fileNames fileData), s1)))"

text \<open>\<^verbatim>\<open>markdownToHTML\<close> (lines 85 to 94) and \<^verbatim>\<open>getTemplatePath\<close> (lines 97 and 98)\<close>

definition markdownToHTML :: "env \<Rightarrow> jsval \<Rightarrow> error + string" where
  "markdownToHTML e text = remarkProcess e text"

definition getTemplatePath :: "env \<Rightarrow> string \<Rightarrow> string" where
  "getTemplatePath e nm = ''templates/'' @ pathFormat e (JStr nm) ''.njk''"

text \<open>\<^verbatim>\<open>createPostFile\<close> (lines 104 to 121)\<close>

definition postFileName :: "env \<Rightarrow> object \<Rightarrow> string" where
  "postFileName e post = pathFormat e (getProp post ''slug'') ''.html''"

definition createPostFile :: "env \<Rightarrow> object \<Rightarrow> fsState \<Rightarrow> (error + object) \<times> fsState" where
  "createPostFile e post s =
     (case markdownToHTML e (getProp post ''body'') of
        Inl err \<Rightarrow> (Inl err, s)
      | Inr html \<Rightarrow>
          (case nunjucksRender e (getTemplatePath e ''post'') (setProp ''body'' (JStr html) post) of
             Inl err \<Rightarrow> (Inl err, s)
           | Inr fileData \<Rightarrow>
               (let fileName = postFileName e post;
                    filePath = pathResolve publicDirPath fileName
                in case writeFile filePath fileData s of
                     (Inl err, s1) \<Rightarrow> (Inl err, s1)
                   | (Inr _, s1) \<Rightarrow> (Inr post, s1))))"

text \<open>\<^verbatim>\<open>createIndexFile\<close> (lines 126 to 134)\<close>

definition createIndexFile :: "env \<Rightarrow> object list \<Rightarrow> fsState \<Rightarrow> (error + unit) \<times> fsState" where
  "createIndexFile e posts s =
     (case nunjucksRender e (getTemplatePath e ''index'') [(''posts'', JArr (map JObj posts))] of
        Inl err \<Rightarrow> (Inl err, s)
      | Inr fileData \<Rightarrow> writeFile (pathResolve publicDirPath ''index.html'') fileData s)"

text \<open>
  The time value of \<^verbatim>\<open>new Date(v)\<close>, \<open>None\<close> for an invalid date: undefined gives an
  invalid date, null and the booleans are numbers, a number is clipped to the range of
  time values and truncated, a string is parsed, a \<^verbatim>\<open>Date\<close> keeps its time value, and an
  array or object is parsed from its string.
\<close>

fun timeClip :: "jsnum \<Rightarrow> int option" where
  "timeClip (Finite r) =
     (if 8640000000000000 < \<bar>r\<bar> then None
      else Some (if 0 \<le> r then \<lfloor>r\<rfloor> else \<lceil>r\<rceil>))"
| "timeClip _ = None"

fun newDate :: "env \<Rightarrow> jsval \<Rightarrow> int option" where
  "newDate e JUndefined = None"
| "newDate e JNull = Some 0"
| "newDate e (JBool b) = Some (if b then 1 else 0)"
| "newDate e (JNum n) = timeClip n"
| "newDate e (JStr s) = dateParse e s"
| "newDate e (JDate t) = t"
| "newDate e v = dateParse e (toString e v)"

text \<open>The difference of two dates is the difference of their time values, NaN when one is invalid.\<close>

fun dateDiff :: "int option \<Rightarrow> int option \<Rightarrow> int option" where
  "dateDiff (Some x) (Some y) = Some (x - y)"
| "dateDiff _ _ = None"

text \<open>The comparator of line 156: \<^verbatim>\<open>(a, b) => new Date(b.date) - new Date(a.date)\<close>\<close>

definition newestFirst :: "env \<Rightarrow> object \<Rightarrow> object \<Rightarrow> int option" where
  "newestFirst e a b = dateDiff (newDate e (getProp b ''date'')) (newDate e (getProp a ''date''))"

text \<open>
  The other copy of the program in the repository differs in this comparator, which is
  \<^verbatim>\<open>(a, b) => new Date(a.date) - new Date(b.date)\<close> there.
\<close>

definition oldestFirst :: "env \<Rightarrow> object \<Rightarrow> object \<Rightarrow> int option" where
  "oldestFirst e a b = dateDiff (newDate e (getProp a ''date'')) (newDate e (getProp b ''date''))"

text \<open>
  \<^verbatim>\<open>Array.prototype.sort(comparefn)\<close>: a comparator result of NaN counts as zero. The
  sort is the insertion sort that V8, the engine of Node.js, has used for short arrays:
  each element in turn is moved to the left past the elements that compare greater than
  it. The sorted part is held in reverse here, its last element first. For a consistent
  comparator this is the stable sorted permutation that ECMAScript requires of every
  engine; for a comparator that is not consistent ECMAScript leaves the order to the
  engine.
\<close>

definition sortCompare :: "('a \<Rightarrow> 'a \<Rightarrow> int option) \<Rightarrow> 'a \<Rightarrow> 'a \<Rightarrow> int" where
  "sortCompare comparefn x y = (case comparefn x y of None \<Rightarrow> 0 | Some v \<Rightarrow> v)"

fun insertElement :: "('a \<Rightarrow> 'a \<Rightarrow> int option) \<Rightarrow> 'a \<Rightarrow> 'a list \<Rightarrow> 'a list" where
  "insertElement comparefn element [] = [element]"
| "insertElement comparefn element (tmp # rest) =
     (if 0 < sortCompare comparefn tmp element then tmp # insertElement comparefn element rest
      else element # tmp # rest)"

definition arraySort :: "('a \<Rightarrow> 'a \<Rightarrow> int option) \<Rightarrow> 'a list \<Rightarrow> 'a list" where
  "arraySort comparefn xs =
     rev (foldl (\<lambda>sortedRev element. insertElement comparefn element sortedRev) [] xs)"

text \<open>
  \<^verbatim>\<open>build\<close> (lines 137 to 160). The array is sorted in place, so the posts returned are
  the posts in the order of the index.
\<close>

definition isPublic :: "object \<Rightarrow> bool" where
  "isPublic post = Boolean (getProp post ''public'')"

definition build :: "env \<Rightarrow> fsState \<Rightarrow> (error + object list) \<times> fsState" where
  "build e s =
     (case mkdir publicDirPath s of
        (Inl err, s1) \<Rightarrow> (Inl err, s1)
      | (Inr _, s1) \<Rightarrow>
     (case removeFiles e publicDirPath ''.html'' s1 of
        (Inl err, s2) \<Rightarrow> (Inl err, s2)
      | (Inr _, s2) \<Rightarrow>
     (case getPosts e postsDirPath s2 of
        (Inl err, s3) \<Rightarrow> (Inl err, s3)
      | (Inr posts, s3) \<Rightarrow>
     (case promiseAll (writeOrder e) (createPostFile e) (filter isPublic posts) s3 of
        (Inl err, s4) \<Rightarrow> (Inl err, s4)
      | (Inr createdPosts, s4) \<Rightarrow>
     (let sorted = arraySort (newestFirst e) createdPosts in
      case createIndexFile e sorted s4 of
        (Inl err, s5) \<Rightarrow> (Inl err, s5)
      | (Inr _, s5) \<Rightarrow> (Inr sorted, s5))))))"

text \<open>
  The entry point (lines 162 to 166): the success message goes to standard output, a
  rejection is handled by \<^verbatim>\<open>catch\<close> and printed to standard error. The program never
  sets an exit code and no rejection is left unhandled, so the process ends with status 0.
\<close>

fun showNat :: "nat \<Rightarrow> string" where
  "showNat n =
     (if n < 10 then [char_of (48 + n)]
      else showNat (n div 10) @ [char_of (48 + n mod 10)])"

record processResult =
  stdout :: "string list"
  stderr :: "error list"
  exitCode :: nat

definition main :: "env \<Rightarrow> fsState \<Rightarrow> processResult \<times> fsState" where
  "main e s =
     (case build e s of
        (Inr created, s1) \<Rightarrow>
          (\<lparr>stdout = [''Build successful. Generated '' @ showNat (length created) @ '' post(s).''],
            stderr = [], exitCode = 0\<rparr>, s1)
      | (Inl err, s1) \<Rightarrow> (\<lparr>stdout = [], stderr = [err], exitCode = 0\<rparr>, s1))"

section \<open>Notions used in the statements\<close>

text \<open>
  A name with the HTML extension as \<^verbatim>\<open>removeFiles\<close> matches it, a regular file with such
  a name, and the entries of a directory (none when it is absent or a regular file).
\<close>

definition htmlName :: "string \<Rightarrow> bool" where
  "htmlName n = endsWith (toLowerCase n) ''.html''"

definition htmlFile :: "string \<times> node \<Rightarrow> bool" where
  "htmlFile en = (isFileNode (snd en) \<and> htmlName (fst en))"

definition entries :: "node option \<Rightarrow> (string \<times> node) list" where
  "entries n = (case n of Some (Dir es) \<Rightarrow> es | _ \<Rightarrow> [])"

section \<open>An instance of the collaborators\<close>

text \<open>
  For evaluation on concrete directories: the front matter and the dates of the files in
  use are given by tables (a file that is not in the table has no metadata block, so it
  has no attributes and is all body; a string that is not in the table is not a date),
  Markdown text becomes one paragraph, the post template prints the body, the index
  template prints the slugs of the posts in their order, and the operations of a
  \<^verbatim>\<open>Promise.all\<close> complete in the order of the array.
\<close>

definition tableFrontMatter ::
  "(string \<times> (error + (object \<times> string))) list \<Rightarrow> string \<Rightarrow> error + (object \<times> string)" where
  "tableFrontMatter tbl dat = (case map_of tbl dat of Some r \<Rightarrow> r | None \<Rightarrow> Inr ([], dat))"

definition paragraph' :: "jsval \<Rightarrow> error + string" where
  "paragraph' v =
     (case v of JStr s \<Rightarrow> Inr (''<p>'' @ s @ ''</p>'') | _ \<Rightarrow> Inl (MarkdownError ''not a string''))"

fun slugLine :: "jsval \<Rightarrow> string" where
  "slugLine (JObj post) = (case getProp post ''slug'' of JStr s \<Rightarrow> s @ ''; '' | _ \<Rightarrow> [])"
| "slugLine _ = []"

definition tableRender :: "string \<Rightarrow> object \<Rightarrow> error + string" where
  "tableRender templatePath ctx =
     (if templatePath = ''templates/post.njk'' then
        (case getProp ctx ''body'' of JStr s \<Rightarrow> Inr s | _ \<Rightarrow> Inl (TemplateError templatePath))
      else if templatePath = ''templates/index.njk'' then
        (case getProp ctx ''posts'' of
           JArr posts \<Rightarrow> Inr (concat (map slugLine posts))
         | _ \<Rightarrow> Inl (TemplateError templatePath))
      else Inl (TemplateError templatePath))"

definition tableEnv ::
  "(string \<times> (error + (object \<times> string))) list \<Rightarrow> (string \<times> int) list \<Rightarrow> env" where
  "tableEnv fm dates =
     \<lparr>frontMatter = tableFrontMatter fm, remarkProcess = paragraph',
      nunjucksRender = tableRender, dateParse = map_of dates, toString = (\<lambda>v. []),
      unlinkOrder = [], readOrder = [], writeOrder = []\<rparr>"

section \<open>Example directories\<close>

text \<open>
  Source files with their front matter as the parser returns it: an unquoted YAML date
  is a \<^verbatim>\<open>Date\<close> (midnight UTC of the day, in milliseconds), \<^verbatim>\<open>~\<close> is null, and \<^verbatim>\<open>TBA\<close> is a
  string, which \<^verbatim>\<open>Date.parse\<close> does not accept.
\<close>

definition helloMd :: string where
  "helloMd = ''---\<newline>title: Hello\<newline>public: true\<newline>date: 2019-04-01\<newline>---\<newline>Hello''"

definition secondMd :: string where
  "secondMd = ''---\<newline>title: Second\<newline>public: true\<newline>date: 2020-04-01\<newline>---\<newline>World''"

definition thirdMd :: string where
  "thirdMd = ''---\<newline>title: Third\<newline>public: true\<newline>date: 2021-04-01\<newline>---\<newline>Again''"

definition oldMd :: string where
  "oldMd = ''---\<newline>title: Old\<newline>public: true\<newline>date: 2018-04-01\<newline>---\<newline>Before''"

definition tbaMd :: string where
  "tbaMd = ''---\<newline>title: Planned\<newline>public: true\<newline>date: TBA\<newline>---\<newline>Later''"

definition draftMd :: string where
  "draftMd = ''---\<newline>title: Draft\<newline>slug: mine\<newline>body: ~\<newline>public: false\<newline>---\<newline>Soon''"

definition brokenMd :: string where
  "brokenMd = ''---\<newline>title: [unclosed\<newline>---\<newline>Text''"

definition helloAttributes :: object where
  "helloAttributes =
     [(''title'', JStr ''Hello''), (''public'', JBool True), (''date'', JDate (Some 1554076800000))]"

definition secondAttributes :: object where
  "secondAttributes =
     [(''title'', JStr ''Second''), (''public'', JBool True), (''date'', JDate (Some 1585699200000))]"

definition thirdAttributes :: object where
  "thirdAttributes =
     [(''title'', JStr ''Third''), (''public'', JBool True), (''date'', JDate (Some 1617235200000))]"

definition oldAttributes :: object where
  "oldAttributes =
     [(''title'', JStr ''Old''), (''public'', JBool True), (''date'', JDate (Some 1522540800000))]"

definition tbaAttributes :: object where
  "tbaAttributes =
     [(''title'', JStr ''Planned''), (''public'', JBool True), (''date'', JStr ''TBA'')]"

definition draftAttributes :: object where
  "draftAttributes =
     [(''title'', JStr ''Draft''), (''slug'', JStr ''mine''), (''body'', JNull), (''public'', JBool False)]"

definition exampleEnv :: env where
  "exampleEnv =
     tableEnv
       [(helloMd, Inr (helloAttributes, ''Hello'')),
        (secondMd, Inr (secondAttributes, ''World'')),
        (thirdMd, Inr (thirdAttributes, ''Again'')),
        (oldMd, Inr (oldAttributes, ''Before'')),
        (tbaMd, Inr (tbaAttributes, ''Later'')),
        (draftMd, Inr (draftAttributes, ''Soon'')),
        (brokenMd, Inl (YAMLException ''unexpected end of the stream within a flow collection''))]
       []"

definition examplePosts :: "(string \<times> node) list" where
  "examplePosts =
     [(''hello-world.md'', File helloMd), (''POST.MD'', File secondMd),
      (''draft.md'', File draftMd), (''notes.txt'', File ''todo''), (''archive.md'', Dir [])]"

definition examplePublic :: "(string \<times> node) list" where
  "examplePublic =
     [(''old.html'', File ''<p>old</p>''), (''style.css'', File ''body {}''),
      (''assets'', Dir [(''logo.svg'', File ''<svg/>'')])]"

definition exampleDisk :: fsState where
  "exampleDisk = \<lparr>postsNode = Some (Dir examplePosts), publicNode = Some (Dir examplePublic)\<rparr>"

text \<open>The posts parsed from the example directory.\<close>

definition helloPost :: object where
  "helloPost = helloAttributes @ [(''body'', JStr ''Hello''), (''slug'', JStr ''hello-world'')]"

definition secondPost :: object where
  "secondPost = secondAttributes @ [(''body'', JStr ''World''), (''slug'', JStr ''POST.MD'')]"

definition draftPost :: object where
  "draftPost =
     [(''title'', JStr ''Draft''), (''slug'', JStr ''draft''), (''body'', JStr ''Soon''),
      (''public'', JBool False)]"

text \<open>
  The example directory with one more file, whose metadata block is malformed; the
  example directory without its source directory; a source directory where two files
  have the same slug and one has the slug of the index page; and a source directory
  where one post declares a date that is not a date.
\<close>

definition brokenPosts :: "(string \<times> node) list" where
  "brokenPosts = examplePosts @ [(''broken.md'', File brokenMd)]"

definition brokenDisk :: fsState where
  "brokenDisk = \<lparr>postsNode = Some (Dir brokenPosts), publicNode = Some (Dir examplePublic)\<rparr>"

definition noPostsDisk :: fsState where
  "noPostsDisk = \<lparr>postsNode = None, publicNode = Some (Dir examplePublic)\<rparr>"

definition clashDisk :: fsState where
  "clashDisk =
     \<lparr>postsNode = Some (Dir [(''index.md'', File helloMd), (''a.MD'', File secondMd),
                              (''a.MD.md'', File thirdMd)]),
      publicNode = None\<rparr>"

definition datesDisk :: fsState where
  "datesDisk =
     \<lparr>postsNode = Some (Dir [(''hello-world.md'', File helloMd), (''planned.md'', File tbaMd),
                              (''second.md'', File secondMd), (''old.md'', File oldMd)]),
      publicNode = None\<rparr>"

section \<open>The directory scan\<close>

lemma endsWith_iff: "endsWith s suf \<longleftrightarrow> (\<exists>stem. s = stem @ suf)"
proof
  assume h: "endsWith s suf"
  then have "s = take (length s - length suf) s @ suf"
    unfolding endsWith_def by (metis append_take_drop_id)
  then show "\<exists>stem. s = stem @ suf" ..
next
  assume "\<exists>stem. s = stem @ suf"
  then show "endsWith s suf" unfolding endsWith_def by auto
qed

lemma scan_entries:
  "map name (filter (\<lambda>de. if 0 < length ext then endsWith (toLowerCase (name de)) ext else True)
      (filter isFile (map direntOf es)))
   = map fst (filter (\<lambda>en. isFileNode (snd en) \<and> (ext \<noteq> [] \<longrightarrow> endsWith (toLowerCase (fst en)) ext)) es)"
  by (induction es) (auto simp: direntOf_def)

lemma getFiles_Dir:
  assumes "nodeAt s d = Some (Dir es)"
  shows "getFiles d ext s =
    Inr (map fst (filter (\<lambda>en. isFileNode (snd en) \<and> (ext \<noteq> [] \<longrightarrow> endsWith (toLowerCase (fst en)) ext)) es))"
proof -
  have "readdir d s = Inr (map direntOf es)" by (simp add: readdir_def assms)
  then show ?thesis unfolding getFiles_def by (simp only: sum.case scan_entries)
qed

text \<open>
  Claim C8. For a directory, the scan for \<^verbatim>\<open>.md\<close> returns the names of exactly the entries
  that are regular files and whose name ends in the Markdown extension (the match is on
  the lower-cased name), in the order of the directory listing, which the scan does not
  change; subdirectories are left out.
\<close>

theorem getFiles_markdown_scan:
  assumes "nodeAt s d = Some (Dir es)"
  shows "getFiles d ''.md'' s =
    Inr (map fst (filter (\<lambda>en. isFileNode (snd en) \<and> (\<exists>stem. toLowerCase (fst en) = stem @ ''.md'')) es))"
  using getFiles_Dir[OF assms, of "''.md''"] by (simp add: endsWith_iff)

theorem getFiles_markdown_scan_witness:
  "getFiles postsDirPath ''.md'' exampleDisk =
     Inr (map fst (filter (\<lambda>en. isFileNode (snd en) \<and> (\<exists>stem. toLowerCase (fst en) = stem @ ''.md''))
            examplePosts))
   \<and> getFiles postsDirPath ''.md'' exampleDisk = Inr [''hello-world.md'', ''POST.MD'', ''draft.md'']"
proof -
  have h: "nodeAt exampleDisk postsDirPath = Some (Dir examplePosts)"
    by (simp add: exampleDisk_def)
  have v: "getFiles postsDirPath ''.md'' exampleDisk = Inr [''hello-world.md'', ''POST.MD'', ''draft.md'']"
    by code_simp
  show ?thesis using getFiles_markdown_scan[OF h] v by (intro conjI)
qed

text \<open>
  Claim C9. The match of the extension is case-insensitive: a regular file whose
  lower-cased name ends in \<^verbatim>\<open>.md\<close> is in the result of the scan, whatever the case of the
  letters of its name.
\<close>

theorem getFiles_case_insensitive:
  assumes "nodeAt s d = Some (Dir es)" and "(n, File c) \<in> set es"
    and "toLowerCase n = stem @ ''.md''"
  shows "\<exists>names. getFiles d ''.md'' s = Inr names \<and> n \<in> set names"
proof -
  have "endsWith (toLowerCase n) ''.md''" using assms(3) endsWith_iff by blast
  then have "n \<in> set (map fst (filter (\<lambda>en. isFileNode (snd en) \<and> (''.md'' \<noteq> [] \<longrightarrow> endsWith (toLowerCase (fst en)) ''.md'')) es))"
    using assms(2) by force
  then show ?thesis using getFiles_Dir[OF assms(1), of "''.md''"] by simp
qed

theorem getFiles_case_insensitive_witness:
  "toLowerCase ''POST.MD'' = ''post'' @ ''.md''
   \<and> (\<exists>names. getFiles postsDirPath ''.md'' exampleDisk = Inr names \<and> ''POST.MD'' \<in> set names)"
proof -
  have h: "nodeAt exampleDisk postsDirPath = Some (Dir examplePosts)"
    by (simp add: exampleDisk_def)
  have m: "(''POST.MD'', File secondMd) \<in> set examplePosts"
    by (simp add: examplePosts_def)
  have l: "toLowerCase ''POST.MD'' = ''post'' @ ''.md''"
    by code_simp
  show ?thesis using getFiles_case_insensitive[OF h m l] l by (intro conjI)
qed

section \<open>Slugs and file names\<close>

lemma basenameExtLoop_rest:
  "\<forall>j<i. path ! j \<noteq> CHR ''/'' \<Longrightarrow> firstNonSlashEnd st \<noteq> -1 \<Longrightarrow> extIdx st < 0
   \<Longrightarrow> basenameExtLoop path ext i st = st"
proof (induction i arbitrary: st)
  case 0
  then show ?case by simp
next
  case (Suc i)
  have a: "path ! i \<noteq> CHR ''/''" using Suc.prems(1) by simp
  have b: "\<forall>j<i. path ! j \<noteq> CHR ''/''" using Suc.prems(1) by simp
  have "basenameExtLoop path ext (Suc i) st = basenameExtLoop path ext i st"
    using a Suc.prems(2,3) by (subst basenameExtLoop.simps(2)) (simp add: Let_def del: basenameExtLoop.simps)
  then show ?case using Suc.IH[OF b Suc.prems(2,3)] by simp
qed

lemma basename_md:
  assumes "CHR ''/'' \<notin> set X"
  shows "basename (X @ ''.md'') ''.md'' = X"
proof (cases "X = []")
  case True
  then show ?thesis by (simp add: basename_def)
next
  case False
  let ?p = "X @ ''.md''"
  let ?n = "length X"
  have ns: "\<forall>j<length X. ?p ! j \<noteq> CHR ''/''"
    using assms by (auto simp: nth_append dest: nth_mem)
  have len: "length ?p = Suc (Suc (Suc ?n))" by simp
  have c2: "?p ! Suc (Suc ?n) = CHR ''d''" by (simp add: nth_append)
  have c1: "?p ! Suc ?n = CHR ''m''" by (simp add: nth_append)
  have c0: "?p ! ?n = CHR ''.''" by (simp add: nth_append)
  have s3: "basenameExtLoop ?p ''.md'' (Suc (Suc (Suc ?n)))
      \<lparr>start = 0, end' = -1, matchedSlash = True, extIdx = 2, firstNonSlashEnd = -1\<rparr>
    = basenameExtLoop ?p ''.md'' (Suc (Suc ?n))
      \<lparr>start = 0, end' = -1, matchedSlash = False, extIdx = 1,
       firstNonSlashEnd = int (Suc (Suc (Suc ?n)))\<rparr>"
    by (subst basenameExtLoop.simps(2)) (simp add: c2 Let_def del: basenameExtLoop.simps)
  have s2: "basenameExtLoop ?p ''.md'' (Suc (Suc ?n))
      \<lparr>start = 0, end' = -1, matchedSlash = False, extIdx = 1,
       firstNonSlashEnd = int (Suc (Suc (Suc ?n)))\<rparr>
    = basenameExtLoop ?p ''.md'' (Suc ?n)
      \<lparr>start = 0, end' = -1, matchedSlash = False, extIdx = 0,
       firstNonSlashEnd = int (Suc (Suc (Suc ?n)))\<rparr>"
    by (subst basenameExtLoop.simps(2)) (simp add: c1 Let_def del: basenameExtLoop.simps)
  have s1: "basenameExtLoop ?p ''.md'' (Suc ?n)
      \<lparr>start = 0, end' = -1, matchedSlash = False, extIdx = 0,
       firstNonSlashEnd = int (Suc (Suc (Suc ?n)))\<rparr>
    = basenameExtLoop ?p ''.md'' ?n
      \<lparr>start = 0, end' = int ?n, matchedSlash = False, extIdx = -1,
       firstNonSlashEnd = int (Suc (Suc (Suc ?n)))\<rparr>"
    by (subst basenameExtLoop.simps(2)) (simp add: c0 Let_def del: basenameExtLoop.simps)
  have s0: "basenameExtLoop ?p ''.md'' ?n
      \<lparr>start = 0, end' = int ?n, matchedSlash = False, extIdx = -1,
       firstNonSlashEnd = int (Suc (Suc (Suc ?n)))\<rparr>
    = \<lparr>start = 0, end' = int ?n, matchedSlash = False, extIdx = -1,
       firstNonSlashEnd = int (Suc (Suc (Suc ?n)))\<rparr>"
    by (rule basenameExtLoop_rest[OF ns]) simp_all
  have st: "basenameExtLoop ?p ''.md'' (length ?p)
      \<lparr>start = 0, end' = -1, matchedSlash = True, extIdx = 2, firstNonSlashEnd = -1\<rparr>
    = \<lparr>start = 0, end' = int ?n, matchedSlash = False, extIdx = -1,
       firstNonSlashEnd = int (Suc (Suc (Suc ?n)))\<rparr>"
    unfolding len by (simp only: s3 s2 s1 s0)
  have ne: "''.md'' \<noteq> ?p" using False by auto
  have pre: "0 < length ''.md'' \<and> length ''.md'' \<le> length ?p" by simp
  have i0: "int (length ''.md'') - 1 = 2" by simp
  show ?thesis
    unfolding basename_def Let_def i0 st
    using False ne pre by (simp add: slice_def del: length_append)
qed

lemma getProp_setProp: "getProp (setProp k v obj) k' = (if k' = k then v else getProp obj k')"
  by (simp add: getProp_def setProp_def update_conv')

lemma pathFormat_JStr: "pathFormat e (JStr x) ext = x @ ext"
  by (simp add: pathFormat_def)

text \<open>
  Claim C10. The slug of a parsed post is the base name of its file and its body is the
  body text of the file, whatever the front matter holds: the attributes are spread
  first, so a \<open>slug\<close> or \<open>body\<close> key of the front matter is overwritten; every other
  attribute is kept.
\<close>

theorem parsePost_slug_body_fixed:
  assumes "frontMatter e fileData = Inr (attributes, body)"
  shows "\<exists>post. parsePost e fileName fileData = Inr post
           \<and> getProp post ''slug'' = JStr (basename fileName ''.md'')
           \<and> getProp post ''body'' = JStr body
           \<and> (\<forall>k. k \<noteq> ''slug'' \<and> k \<noteq> ''body'' \<longrightarrow> getProp post k = getProp attributes k)"
  using assms by (simp add: parsePost_def getProp_setProp)

theorem parsePost_slug_body_fixed_witness:
  "\<exists>post. parsePost exampleEnv ''draft.md'' draftMd = Inr post
           \<and> getProp post ''slug'' = JStr (basename ''draft.md'' ''.md'')
           \<and> getProp post ''body'' = JStr ''Soon''
           \<and> (\<forall>k. k \<noteq> ''slug'' \<and> k \<noteq> ''body'' \<longrightarrow> getProp post k = getProp draftAttributes k)"
proof -
  have h: "frontMatter exampleEnv draftMd = Inr (draftAttributes, ''Soon'')"
    by code_simp
  show ?thesis by (rule parsePost_slug_body_fixed[OF h])
qed

lemma writeFile_ok:
  assumes "publicNode s = Some (Dir es)" and "\<forall>sub. map_of es n \<noteq> Some (Dir sub)"
  shows "writeFile (pathResolve publicDirPath n) d s
       = (Inr (), s\<lparr>publicNode := Some (Dir (AList.update n (File d) es))\<rparr>)"
proof (cases "map_of es n")
  case None
  then show ?thesis using assms(1) by (simp add: writeFile_def pathResolve_def)
next
  case (Some w)
  then obtain c where "w = File c" using assms(2) by (cases w) auto
  then show ?thesis using assms(1) Some by (simp add: writeFile_def pathResolve_def)
qed

lemma readFile_after_write:
  assumes "publicNode s = Some (Dir es)"
  shows "readFile (pathResolve publicDirPath k) (s\<lparr>publicNode := Some (Dir (AList.update n (File d) es))\<rparr>)
       = (if k = n then Inr d else readFile (pathResolve publicDirPath k) s)"
  using assms by (simp add: readFile_def pathResolve_def update_conv')

text \<open>
  Claim C2. For a source file named \<open>X.md\<close> (a name of a directory entry, so without a
  slash), the parsed post has the slug \<open>X\<close> and the file name \<^verbatim>\<open>createPostFile\<close> computes
  for it is \<open>X.html\<close>. A run of \<^verbatim>\<open>createPostFile\<close> that succeeds has written the rendered
  page to that file of the output directory; and where the Markdown and the template
  render and no subdirectory has that name, \<^verbatim>\<open>createPostFile\<close> succeeds, the file \<open>X.html\<close>
  holds the rendered page afterwards, and no other file has changed.
\<close>

theorem slug_roundtrip:
  assumes "CHR ''/'' \<notin> set X" and "frontMatter e fileData = Inr (attributes, body)"
  shows "\<exists>post. parsePost e (X @ ''.md'') fileData = Inr post
           \<and> getProp post ''slug'' = JStr X
           \<and> postFileName e post = X @ ''.html''
           \<and> (\<forall>s r s1. createPostFile e post s = (Inr r, s1) \<longrightarrow>
                (\<exists>html page. markdownToHTML e (JStr body) = Inr html
                   \<and> nunjucksRender e (getTemplatePath e ''post'') (setProp ''body'' (JStr html) post) = Inr page
                   \<and> writeFile (pathResolve publicDirPath (X @ ''.html'')) page s = (Inr (), s1)))
           \<and> (\<forall>s es html page.
                  publicNode s = Some (Dir es) \<and> (\<forall>sub. map_of es (X @ ''.html'') \<noteq> Some (Dir sub))
                \<and> markdownToHTML e (JStr body) = Inr html
                \<and> nunjucksRender e (getTemplatePath e ''post'') (setProp ''body'' (JStr html) post) = Inr page
                \<longrightarrow> (\<exists>s1. createPostFile e post s = (Inr post, s1)
                      \<and> readFile (pathResolve publicDirPath (X @ ''.html'')) s1 = Inr page
                      \<and> (\<forall>n. n \<noteq> X @ ''.html'' \<longrightarrow>
                            readFile (pathResolve publicDirPath n) s1 = readFile (pathResolve publicDirPath n) s)
                      \<and> postsNode s1 = postsNode s))"
proof -
  let ?post = "setProp ''slug'' (JStr X) (setProp ''body'' (JStr body) attributes)"
  have p: "parsePost e (X @ ''.md'') fileData = Inr ?post"
    using assms by (simp add: parsePost_def basename_md)
  have sl: "getProp ?post ''slug'' = JStr X" by (simp add: getProp_setProp)
  have bd: "getProp ?post ''body'' = JStr body" by (simp add: getProp_setProp)
  have fn: "postFileName e ?post = X @ ''.html''"
    by (simp add: postFileName_def sl pathFormat_JStr)
  have wr: "\<exists>html page. markdownToHTML e (JStr body) = Inr html
                   \<and> nunjucksRender e (getTemplatePath e ''post'') (setProp ''body'' (JStr html) ?post) = Inr page
                   \<and> writeFile (pathResolve publicDirPath (X @ ''.html'')) page s = (Inr (), s1)"
    if "createPostFile e ?post s = (Inr r, s1)" for s r s1
    using that unfolding createPostFile_def fn bd Let_def
    by (auto split: sum.splits prod.splits unit.splits)
  have ok: "\<exists>s1. createPostFile e ?post s = (Inr ?post, s1)
                      \<and> readFile (pathResolve publicDirPath (X @ ''.html'')) s1 = Inr page
                      \<and> (\<forall>n. n \<noteq> X @ ''.html'' \<longrightarrow>
                            readFile (pathResolve publicDirPath n) s1 = readFile (pathResolve publicDirPath n) s)
                      \<and> postsNode s1 = postsNode s"
    if h: "publicNode s = Some (Dir es) \<and> (\<forall>sub. map_of es (X @ ''.html'') \<noteq> Some (Dir sub))
                \<and> markdownToHTML e (JStr body) = Inr html
                \<and> nunjucksRender e (getTemplatePath e ''post'') (setProp ''body'' (JStr html) ?post) = Inr page"
    for s es html page
  proof -
    let ?s1 = "s\<lparr>publicNode := Some (Dir (AList.update (X @ ''.html'') (File page) es))\<rparr>"
    have w: "writeFile (pathResolve publicDirPath (X @ ''.html'')) page s = (Inr (), ?s1)"
      using h by (intro writeFile_ok) simp_all
    have c: "createPostFile e ?post s = (Inr ?post, ?s1)"
      using h w by (simp add: createPostFile_def fn bd)
    have r: "readFile (pathResolve publicDirPath k) ?s1
        = (if k = X @ ''.html'' then Inr page else readFile (pathResolve publicDirPath k) s)" for k
      using h by (intro readFile_after_write) simp
    show ?thesis using c r by (intro exI[of _ ?s1]) simp
  qed
  show ?thesis
    apply (rule exI[of _ ?post])
    using p sl fn wr ok by blast
qed

theorem slug_roundtrip_witness:
  "parsePost exampleEnv (''hello-world'' @ ''.md'') helloMd = Inr helloPost
   \<and> getProp helloPost ''slug'' = JStr ''hello-world''
   \<and> postFileName exampleEnv helloPost = ''hello-world'' @ ''.html''
   \<and> fst (createPostFile exampleEnv helloPost exampleDisk) = Inr helloPost
   \<and> readFile (pathResolve publicDirPath (''hello-world'' @ ''.html''))
        (snd (createPostFile exampleEnv helloPost exampleDisk)) = Inr ''<p>Hello</p>''"
proof -
  have h1: "CHR ''/'' \<notin> set ''hello-world''" by simp
  have h2: "frontMatter exampleEnv helloMd = Inr (helloAttributes, ''Hello'')" by code_simp
  have pp: "parsePost exampleEnv (''hello-world'' @ ''.md'') helloMd = Inr helloPost" by code_simp
  have d: "publicNode exampleDisk = Some (Dir examplePublic)" by (simp add: exampleDisk_def)
  have m: "map_of examplePublic (''hello-world'' @ ''.html'') = None" by code_simp
  have md: "markdownToHTML exampleEnv (JStr ''Hello'') = Inr ''<p>Hello</p>''" by code_simp
  have rn: "nunjucksRender exampleEnv (getTemplatePath exampleEnv ''post'')
      (setProp ''body'' (JStr ''<p>Hello</p>'') helloPost) = Inr ''<p>Hello</p>''"
    by code_simp
  from slug_roundtrip[OF h1 h2] obtain post where
    a: "parsePost exampleEnv (''hello-world'' @ ''.md'') helloMd = Inr post" and
    b: "getProp post ''slug'' = JStr ''hello-world''" and
    c: "postFileName exampleEnv post = ''hello-world'' @ ''.html''" and
    ok: "\<forall>s es html page.
                  publicNode s = Some (Dir es) \<and> (\<forall>sub. map_of es (''hello-world'' @ ''.html'') \<noteq> Some (Dir sub))
                \<and> markdownToHTML exampleEnv (JStr ''Hello'') = Inr html
                \<and> nunjucksRender exampleEnv (getTemplatePath exampleEnv ''post'') (setProp ''body'' (JStr html) post) = Inr page
                \<longrightarrow> (\<exists>s1. createPostFile exampleEnv post s = (Inr post, s1)
                      \<and> readFile (pathResolve publicDirPath (''hello-world'' @ ''.html'')) s1 = Inr page
                      \<and> (\<forall>n. n \<noteq> ''hello-world'' @ ''.html'' \<longrightarrow>
                            readFile (pathResolve publicDirPath n) s1 = readFile (pathResolve publicDirPath n) s)
                      \<and> postsNode s1 = postsNode s)"
    by blast
  have e: "post = helloPost" using a pp by simp
  have pre: "publicNode exampleDisk = Some (Dir examplePublic)
      \<and> (\<forall>sub. map_of examplePublic (''hello-world'' @ ''.html'') \<noteq> Some (Dir sub))
      \<and> markdownToHTML exampleEnv (JStr ''Hello'') = Inr ''<p>Hello</p>''
      \<and> nunjucksRender exampleEnv (getTemplatePath exampleEnv ''post'')
            (setProp ''body'' (JStr ''<p>Hello</p>'') helloPost) = Inr ''<p>Hello</p>''"
    using d m md rn by simp
  from ok[unfolded e, rule_format, OF pre] obtain s1 where
    c1: "createPostFile exampleEnv helloPost exampleDisk = (Inr helloPost, s1)" and
    r1: "readFile (pathResolve publicDirPath (''hello-world'' @ ''.html'')) s1 = Inr ''<p>Hello</p>''"
    by blast
  have f: "fst (createPostFile exampleEnv helloPost exampleDisk) = Inr helloPost" using c1 by simp
  have g: "readFile (pathResolve publicDirPath (''hello-world'' @ ''.html''))
        (snd (createPostFile exampleEnv helloPost exampleDisk)) = Inr ''<p>Hello</p>''"
    using c1 r1 by simp
  show ?thesis using pp b[unfolded e] c[unfolded e] f g by (intro conjI)
qed

section \<open>Effects of the operations\<close>

lemma toLowerCase_append: "toLowerCase (a @ b) = toLowerCase a @ toLowerCase b"
  by (simp add: toLowerCase_def)

lemma toLowerCase_html: "toLowerCase ''.html'' = ''.html''"
  by code_simp

lemma htmlName_append: "htmlName (x @ ''.html'')"
  unfolding htmlName_def endsWith_iff toLowerCase_append toLowerCase_html by blast

lemma htmlName_index: "htmlName ''index.html''"
  using htmlName_append[of "''index''"] by simp

lemma htmlName_postFileName: "htmlName (postFileName e post)"
  unfolding postFileName_def pathFormat_def by (rule htmlName_append)

lemma getFiles_html:
  "nodeAt s d = Some (Dir es) \<Longrightarrow> getFiles d ''.html'' s = Inr (map fst (filter htmlFile es))"
  by (simp add: getFiles_Dir htmlFile_def[abs_def] htmlName_def)

lemma nodeAt_setNode: "nodeAt (setNode d n s) d' = (if d' = d then n else nodeAt s d')"
  by (cases d; cases d') simp_all

lemma setNode_setNode: "setNode d n (setNode d m s) = setNode d n s"
  by (cases d) simp_all

lemma setNode_same: "nodeAt s d = n \<Longrightarrow> setNode d n s = s"
  by (cases d) auto

lemma completionOrder_set: "set (completionOrder pref n) = {0..<n}"
  by (auto simp: completionOrder_def)

lemma completionOrder_distinct: "distinct (completionOrder pref n)"
  by (auto simp: completionOrder_def)

lemma completionOrder_mset: "mset (completionOrder pref n) = mset [0..<n]"
proof -
  have "set (completionOrder pref n) = set [0..<n]" by (simp add: completionOrder_set)
  then show ?thesis
    using set_eq_iff_mset_eq_distinct[of "completionOrder pref n" "[0..<n]"]
    by (simp add: completionOrder_distinct)
qed

lemma scheduled_mset: "mset (scheduled pref xs) = mset xs"
proof -
  have "mset (scheduled pref xs) = image_mset (\<lambda>i. xs ! i) (mset (completionOrder pref (length xs)))"
    by (simp add: scheduled_def)
  also have "\<dots> = mset (map (\<lambda>i. xs ! i) [0..<length xs])"
    by (simp add: completionOrder_mset)
  also have "\<dots> = mset xs" by (simp add: map_nth)
  finally show ?thesis .
qed

lemma scheduled_set: "set (scheduled pref xs) = set xs"
  using scheduled_mset[of pref xs] by (rule mset_eq_setD)

lemma scheduled_Nil: "scheduled [] xs = xs"
  by (simp add: scheduled_def completionOrder_def map_nth)

lemma scheduled_distinct_map:
  "distinct (map g xs) \<Longrightarrow> distinct (map g (scheduled pref xs))"
proof -
  assume d: "distinct (map g xs)"
  have "mset (map g (scheduled pref xs)) = mset (map g xs)"
    by (simp add: scheduled_mset)
  then show ?thesis using d by (metis mset_eq_imp_distinct_iff)
qed

lemma indexOf_nth:
  "i \<in> set order \<Longrightarrow> indexOf i order < length order \<and> order ! indexOf i order = i"
  unfolding indexOf_def by (induction order) auto

lemma promiseAll_values:
  assumes "vs = map h (scheduled pref xs)"
  shows "map (\<lambda>i. vs ! indexOf i (completionOrder pref (length xs))) [0..<length xs] = map h xs"
proof -
  let ?order = "completionOrder pref (length xs)"
  have "vs ! indexOf i ?order = h (xs ! i)" if "i < length xs" for i
  proof -
    have "i \<in> set ?order" using that by (simp add: completionOrder_set)
    from indexOf_nth[OF this] show ?thesis
      using assms by (simp add: scheduled_def)
  qed
  then have "map (\<lambda>i. vs ! indexOf i ?order) [0..<length xs] = map (\<lambda>i. h (xs ! i)) [0..<length xs]"
    by simp
  also have "\<dots> = map h (map (\<lambda>i. xs ! i) [0..<length xs])" by simp
  also have "\<dots> = map h xs" by (simp add: map_nth)
  finally show ?thesis .
qed

lemma settleInOrder_invariant:
  assumes "P s" and "\<And>x t. x \<in> set xs \<Longrightarrow> P t \<Longrightarrow> P (snd (f x t))"
  shows "P (snd (settleInOrder f xs s))"
  using assms
proof (induction xs arbitrary: s)
  case Nil
  then show ?case by simp
next
  case (Cons x xs)
  obtain r s1 where f: "f x s = (r, s1)" by (cases "f x s")
  obtain rs s2 where p: "settleInOrder f xs s1 = (rs, s2)" by (cases "settleInOrder f xs s1")
  have "P s1" using Cons.prems(1) Cons.prems(2)[of x s] f by simp
  then have "P (snd (settleInOrder f xs s1))"
    using Cons.IH Cons.prems(2) by simp
  then show ?case using f p by simp
qed

lemma settleInOrder_pure:
  "settleInOrder (\<lambda>x t. (g x t, t)) xs s = (mapThrowing (\<lambda>x. g x s) xs, s)"
  by (induction xs) (auto split: sum.splits)

lemma settleInOrder_Inr_all:
  "settleInOrder f xs s = (Inr ys, s') \<Longrightarrow> (\<And>x t r t'. f x t = (Inr r, t') \<Longrightarrow> r = h x)
   \<Longrightarrow> ys = map h xs"
proof (induction xs arbitrary: s ys s')
  case Nil
  then show ?case by simp
next
  case (Cons x xs)
  obtain r s1 where f: "f x s = (r, s1)" by (cases "f x s")
  obtain rs s2 where p: "settleInOrder f xs s1 = (rs, s2)" by (cases "settleInOrder f xs s1")
  from Cons.prems(1) f p obtain v vs where r: "r = Inr v" and rs: "rs = Inr vs" and ys: "ys = v # vs"
    by (auto split: sum.splits)
  have "v = h x" using Cons.prems(2) f r by blast
  moreover have "vs = map h xs" using Cons.IH[OF p[unfolded rs]] Cons.prems(2) by blast
  ultimately show ?case using ys by simp
qed

lemma promiseAll_state:
  "snd (promiseAll pref f xs s) = snd (settleInOrder f (scheduled pref xs) s)"
  by (simp add: promiseAll_def split: prod.splits sum.splits)

lemma promiseAll_Inl:
  "promiseAll pref f xs s = (Inl err, s') \<longleftrightarrow> settleInOrder f (scheduled pref xs) s = (Inl err, s')"
  by (auto simp: promiseAll_def split: prod.splits sum.splits)

lemma promiseAll_Inr_settle:
  assumes "promiseAll pref f xs s = (Inr ys, s')"
  shows "\<exists>vs. settleInOrder f (scheduled pref xs) s = (Inr vs, s')"
  using assms by (auto simp: promiseAll_def split: prod.splits sum.splits)

lemma promiseAll_of_settle:
  assumes "settleInOrder f (scheduled pref xs) s = (Inr vs, s')"
    and "\<And>x t r t'. f x t = (Inr r, t') \<Longrightarrow> r = h x"
  shows "promiseAll pref f xs s = (Inr (map h xs), s')"
proof -
  have "vs = map h (scheduled pref xs)"
    by (rule settleInOrder_Inr_all[OF assms(1)]) (rule assms(2))
  from promiseAll_values[OF this] show ?thesis
    using assms(1) by (simp add: promiseAll_def)
qed

lemma promiseAll_invariant:
  assumes "P s" and "\<And>x t. x \<in> set xs \<Longrightarrow> P t \<Longrightarrow> P (snd (f x t))"
  shows "P (snd (promiseAll pref f xs s))"
  unfolding promiseAll_state
  by (rule settleInOrder_invariant[of P, OF assms(1)]) (simp add: scheduled_set assms(2))

lemma promiseAll_Inr_all:
  assumes "promiseAll pref f xs s = (Inr ys, s')"
    and "\<And>x t r t'. f x t = (Inr r, t') \<Longrightarrow> r = h x"
  shows "ys = map h xs"
proof -
  from promiseAll_Inr_settle[OF assms(1)] obtain vs where
    "settleInOrder f (scheduled pref xs) s = (Inr vs, s')" by blast
  from promiseAll_of_settle[OF this, of h] assms show ?thesis by simp
qed

lemma mapThrowing_Inr_iff: "mapThrowing f xs = Inr ys \<longleftrightarrow> map f xs = map Inr ys"
proof (induction xs arbitrary: ys)
  case Nil
  then show ?case by auto
next
  case (Cons x xs)
  show ?case
  proof (cases "f x")
    case (Inl err)
    then show ?thesis by (cases ys) auto
  next
    case (Inr y)
    show ?thesis
    proof (cases "mapThrowing f xs")
      case (Inl err)
      then have "\<And>zs. map f xs \<noteq> map Inr zs" using Cons.IH by auto
      then show ?thesis using Inl Inr by (cases ys) auto
    next
      case (Inr zs)
      then have "map f xs = map Inr zs" using Cons.IH by simp
      then show ?thesis using Inr \<open>f x = Inr y\<close> by (cases ys) (auto simp: inj_map_eq_map)
    qed
  qed
qed

lemma mapThrowing_Inr_set:
  "(\<exists>ys. mapThrowing f xs = Inr ys) \<longleftrightarrow> (\<forall>x\<in>set xs. \<exists>y. f x = Inr y)"
  by (induction xs) (auto split: sum.splits)

lemma mapThrowing_Inr_projr:
  "mapThrowing f xs = Inr ys \<Longrightarrow> ys = map (\<lambda>x. projr (f x)) xs"
  by (induction xs arbitrary: ys) (auto split: sum.splits)

lemma promiseAll_pure_eq:
  "promiseAll pref (\<lambda>x t. (g x t, t)) xs s
   = ((case mapThrowing (\<lambda>x. g x s) (scheduled pref xs) of
         Inl err \<Rightarrow> Inl err
       | Inr vs \<Rightarrow> Inr (map (\<lambda>i. vs ! indexOf i (completionOrder pref (length xs))) [0..<length xs])), s)"
  by (simp add: promiseAll_def settleInOrder_pure split: sum.splits)

lemma promiseAll_pure:
  assumes "promiseAll pref (\<lambda>x t. (g x t, t)) xs s = (r, s')"
  shows "s' = s \<and> (\<forall>ds. r = Inr ds \<longleftrightarrow> mapThrowing (\<lambda>x. g x s) xs = Inr ds)"
proof -
  let ?g = "\<lambda>x. g x s"
  have s: "s' = s" using assms by (simp add: promiseAll_pure_eq)
  have "r = Inr ds \<longleftrightarrow> mapThrowing ?g xs = Inr ds" for ds
  proof (cases "mapThrowing ?g (scheduled pref xs)")
    case (Inl err)
    then have r: "r = Inl err" using assms by (simp add: promiseAll_pure_eq)
    have "\<not> (\<forall>x\<in>set (scheduled pref xs). \<exists>y. ?g x = Inr y)"
      using Inl mapThrowing_Inr_set[of ?g "scheduled pref xs"] by simp
    then have "\<not> (\<forall>x\<in>set xs. \<exists>y. ?g x = Inr y)" by (simp add: scheduled_set)
    then have "mapThrowing ?g xs \<noteq> Inr ds"
      using mapThrowing_Inr_set[of ?g xs] by blast
    then show ?thesis using r by simp
  next
    case (Inr vs)
    have vs: "vs = map (\<lambda>x. projr (?g x)) (scheduled pref xs)"
      by (rule mapThrowing_Inr_projr[OF Inr])
    have r: "r = Inr (map (\<lambda>x. projr (?g x)) xs)"
      using assms Inr promiseAll_values[OF vs] by (auto simp: promiseAll_pure_eq)
    have "\<forall>x\<in>set (scheduled pref xs). \<exists>y. ?g x = Inr y"
      using Inr mapThrowing_Inr_set[of ?g "scheduled pref xs"] by blast
    then have "\<forall>x\<in>set xs. \<exists>y. ?g x = Inr y" by (simp add: scheduled_set)
    then obtain zs where zs: "mapThrowing ?g xs = Inr zs"
      using mapThrowing_Inr_set[of ?g xs] by blast
    from mapThrowing_Inr_projr[OF zs] zs r show ?thesis by auto
  qed
  then show ?thesis using s by simp
qed

lemma mapThrowing_Inr_all:
  "mapThrowing f xs = Inr ys \<Longrightarrow> x \<in> set xs \<Longrightarrow> \<exists>y. f x = Inr y"
  by (induction xs arbitrary: ys) (auto split: sum.splits)

lemma getPosts_state: "snd (getPosts e d s) = s"
  unfolding getPosts_def by (simp add: promiseAll_pure_eq split: sum.splits)

lemma getFiles_cong: "nodeAt s d = nodeAt t d \<Longrightarrow> getFiles d ext s = getFiles d ext t"
  by (simp add: getFiles_def readdir_def)

lemma readFile_cong: "nodeAt s d = nodeAt t d \<Longrightarrow> readFile (pathResolve d n) s = readFile (pathResolve d n) t"
  by (simp add: readFile_def pathResolve_def)

lemma getPosts_cong:
  assumes "nodeAt s d = nodeAt t d"
  shows "fst (getPosts e d s) = fst (getPosts e d t)"
  unfolding getPosts_def
  by (simp add: promiseAll_pure_eq getFiles_cong[OF assms] readFile_cong[OF assms] split: sum.splits)

lemma unlink_cases:
  assumes "unlink p s = (r, s')"
  shows "(s' = s \<and> (\<exists>err. r = Inl err))
       \<or> (\<exists>es c. nodeAt s (fst p) = Some (Dir es) \<and> map_of es (snd p) = Some (File c)
              \<and> s' = setNode (fst p) (Some (Dir (AList.delete (snd p) es))) s \<and> r = Inr ())"
  using assms unfolding unlink_def
  by (auto split: option.splits node.splits)

lemma writeFile_cases:
  assumes "writeFile p fileData s = (r, s')"
  shows "(s' = s \<and> (\<exists>err. r = Inl err))
       \<or> (\<exists>es. nodeAt s (fst p) = Some (Dir es) \<and> (\<forall>sub. map_of es (snd p) \<noteq> Some (Dir sub))
              \<and> s' = setNode (fst p) (Some (Dir (AList.update (snd p) (File fileData) es))) s
              \<and> r = Inr ())"
  using assms unfolding writeFile_def
  by (auto split: option.splits node.splits)

lemma createPostFile_cases:
  assumes "createPostFile e post s = (r, s')"
  shows "(s' = s \<and> (\<exists>err. r = Inl err))
       \<or> (r = Inr post \<and> (\<exists>html fileData.
              markdownToHTML e (getProp post ''body'') = Inr html
            \<and> nunjucksRender e (getTemplatePath e ''post'') (setProp ''body'' (JStr html) post) = Inr fileData
            \<and> writeFile (publicDirPath, postFileName e post) fileData s = (Inr (), s')))"
proof (cases "markdownToHTML e (getProp post ''body'')")
  case (Inl err)
  then show ?thesis using assms by (auto simp add: createPostFile_def)
next
  case (Inr html)
  note md = this
  show ?thesis
  proof (cases "nunjucksRender e (getTemplatePath e ''post'') (setProp ''body'' (JStr html) post)")
    case (Inl err)
    then show ?thesis using assms md by (auto simp add: createPostFile_def)
  next
    case (Inr fileData)
    obtain w s1 where w: "writeFile (publicDirPath, postFileName e post) fileData s = (w, s1)"
      by (cases "writeFile (publicDirPath, postFileName e post) fileData s")
    show ?thesis
    proof (cases w)
      case (Inl err)
      then have "s1 = s" using writeFile_cases[OF w] by auto
      then show ?thesis using assms md Inr w Inl
        by (auto simp add: createPostFile_def pathResolve_def)
    next
      case (Inr u)
      then show ?thesis using assms md \<open>nunjucksRender e (getTemplatePath e ''post'') (setProp ''body'' (JStr html) post) = Inr fileData\<close> w
        by (auto simp add: createPostFile_def pathResolve_def)
    qed
  qed
qed

lemma createIndexFile_cases:
  assumes "createIndexFile e posts s = (r, s')"
  shows "(s' = s \<and> (\<exists>err. r = Inl err))
       \<or> (r = Inr () \<and> (\<exists>fileData.
              nunjucksRender e (getTemplatePath e ''index'') [(''posts'', JArr (map JObj posts))] = Inr fileData
            \<and> writeFile (publicDirPath, ''index.html'') fileData s = (Inr (), s')))"
proof (cases "nunjucksRender e (getTemplatePath e ''index'') [(''posts'', JArr (map JObj posts))]")
  case (Inl err)
  then show ?thesis using assms by (auto simp add: createIndexFile_def)
next
  case (Inr fileData)
  then have w: "writeFile (publicDirPath, ''index.html'') fileData s = (r, s')"
    using assms by (simp add: createIndexFile_def pathResolve_def)
  show ?thesis using writeFile_cases[OF w] w Inr by auto
qed

lemma getFiles_html_names:
  assumes "getFiles d ''.html'' s = Inr ns" and "n \<in> set ns"
  shows "htmlName n"
proof -
  obtain es where d: "nodeAt s d = Some (Dir es)"
    using assms(1) unfolding getFiles_def readdir_def
    by (auto split: option.splits node.splits)
  show ?thesis using assms getFiles_html[OF d] by (auto simp: htmlFile_def)
qed

lemma removeFiles_invariant:
  assumes "P s" and "\<And>t n. P t \<Longrightarrow> htmlName n \<Longrightarrow> P (snd (unlink (d, n) t))"
  shows "P (snd (removeFiles e d ''.html'' s))"
proof (cases "getFiles d ''.html'' s")
  case (Inl err)
  then show ?thesis using assms(1) by (simp add: removeFiles_def)
next
  case (Inr ns)
  have "P (snd (promiseAll (unlinkOrder e) (\<lambda>fileName. unlink (pathResolve d fileName)) ns s))"
    by (rule promiseAll_invariant[of P, OF assms(1)])
       (simp add: pathResolve_def assms(2) getFiles_html_names[OF Inr])
  then show ?thesis using Inr by (simp add: removeFiles_def)
qed

lemma createPostFile_invariant:
  assumes "P s" and "\<And>t n d. P t \<Longrightarrow> htmlName n \<Longrightarrow> P (snd (writeFile (publicDirPath, n) d t))"
  shows "P (snd (createPostFile e post s))"
proof -
  obtain r s' where c: "createPostFile e post s = (r, s')" by (cases "createPostFile e post s")
  have "P (snd (writeFile (publicDirPath, postFileName e post) d s))" for d
    by (rule assms(2)[OF assms(1) htmlName_postFileName])
  then show ?thesis using createPostFile_cases[OF c] c assms(1)
    by (metis snd_conv)
qed

lemma createIndexFile_invariant:
  assumes "P s" and "\<And>t n d. P t \<Longrightarrow> htmlName n \<Longrightarrow> P (snd (writeFile (publicDirPath, n) d t))"
  shows "P (snd (createIndexFile e posts s))"
proof -
  obtain r s' where c: "createIndexFile e posts s = (r, s')" by (cases "createIndexFile e posts s")
  have "P (snd (writeFile (publicDirPath, ''index.html'') d s))" for d
    by (rule assms(2)[OF assms(1) htmlName_index])
  then show ?thesis using createIndexFile_cases[OF c] c assms(1)
    by (metis snd_conv)
qed

lemma createPostFile_writes:
  assumes "P s" and "\<And>d. P (snd (writeFile (publicDirPath, postFileName e post) d s))"
  shows "P (snd (createPostFile e post s))"
proof -
  obtain r s' where c: "createPostFile e post s = (r, s')" by (cases "createPostFile e post s")
  show ?thesis using createPostFile_cases[OF c] c assms
    by (metis snd_conv)
qed

lemma createIndexFile_writes:
  assumes "P s" and "\<And>d. P (snd (writeFile (publicDirPath, ''index.html'') d s))"
  shows "P (snd (createIndexFile e posts s))"
proof -
  obtain r s' where c: "createIndexFile e posts s = (r, s')" by (cases "createIndexFile e posts s")
  show ?thesis using createIndexFile_cases[OF c] c assms
    by (metis snd_conv)
qed

lemma mkdir_posts: "postsNode (snd (mkdir publicDirPath s)) = postsNode s"
  by (simp add: mkdir_def split: option.splits node.splits)

lemma unlink_posts: "postsNode (snd (unlink (publicDirPath, n) s)) = postsNode s"
  by (simp add: unlink_def split: option.splits node.splits)

lemma writeFile_posts: "postsNode (snd (writeFile (publicDirPath, n) d s)) = postsNode s"
  by (simp add: writeFile_def split: option.splits node.splits)

lemma reset_posts:
  "postsNode (snd (removeFiles e publicDirPath ''.html'' (snd (mkdir publicDirPath s)))) = postsNode s"
proof -
  let ?P = "\<lambda>t. postsNode t = postsNode s"
  have "?P (snd (removeFiles e publicDirPath ''.html'' (snd (mkdir publicDirPath s))))"
    by (rule removeFiles_invariant[of ?P]) (simp_all add: mkdir_posts unlink_posts)
  then show ?thesis .
qed

lemma getPosts_posts:
  "postsNode s = postsNode t \<Longrightarrow> fst (getPosts e postsDirPath s) = fst (getPosts e postsDirPath t)"
  by (rule getPosts_cong) simp

text \<open>
  What holds before a run and is kept by \<^verbatim>\<open>mkdir\<close> of the output directory, by every
  \<^verbatim>\<open>unlink\<close> of an HTML name in it and by every \<^verbatim>\<open>writeFile\<close> to the file of a
  public post or to the index holds after the run, whatever the outcome and the order
  in which the operations complete.
\<close>

lemma build_invariant_names:
  assumes p: "P s"
    and mk: "\<And>t. P t \<Longrightarrow> P (snd (mkdir publicDirPath t))"
    and ul: "\<And>t n. P t \<Longrightarrow> htmlName n \<Longrightarrow> P (snd (unlink (publicDirPath, n) t))"
    and wr: "\<And>t n d. P t \<Longrightarrow>
        n = ''index.html'' \<or> (\<exists>posts p. fst (getPosts e postsDirPath s) = Inr posts
            \<and> p \<in> set posts \<and> isPublic p \<and> n = postFileName e p) \<Longrightarrow>
        P (snd (writeFile (publicDirPath, n) d t))"
  shows "P (snd (build e s))"
proof -
  obtain r1 s1 where m: "mkdir publicDirPath s = (r1, s1)" by (cases "mkdir publicDirPath s")
  have p1: "P s1" using mk[OF p] m by simp
  obtain r2 s2 where rm: "removeFiles e publicDirPath ''.html'' s1 = (r2, s2)"
    by (cases "removeFiles e publicDirPath ''.html'' s1")
  have p2: "P s2" using removeFiles_invariant[where P=P and e=e, OF p1 ul] rm by simp
  have "postsNode s2 = postsNode s" using reset_posts[of e s] m rm by simp
  then have same: "fst (getPosts e postsDirPath s2) = fst (getPosts e postsDirPath s)"
    by (rule getPosts_posts)
  obtain r3 where gp: "getPosts e postsDirPath s2 = (r3, s2)"
    using getPosts_state[of e postsDirPath s2] by (cases "getPosts e postsDirPath s2") simp
  have p5: "P (snd (createIndexFile e ps t))" if "P t" for ps t
    by (rule createIndexFile_writes[of P, OF that]) (simp add: wr[OF that])
  show ?thesis
  proof (cases r1)
    case (Inl err)
    then show ?thesis using m p1 by (simp add: build_def)
  next
    case (Inr u1)
    note r1 = this
    show ?thesis
    proof (cases r2)
      case (Inl err)
      then show ?thesis using m r1 rm p2 by (simp add: build_def)
    next
      case (Inr u2)
      note r2 = this
      show ?thesis
      proof (cases r3)
        case (Inl err)
        then show ?thesis using m r1 rm r2 gp p2 by (simp add: build_def)
      next
        case (Inr posts)
        note r3 = this
        have ps: "fst (getPosts e postsDirPath s) = Inr posts" using same gp r3 by simp
        obtain r4 s4 where pa: "promiseAll (writeOrder e) (createPostFile e) (filter isPublic posts) s2 = (r4, s4)"
          by (cases "promiseAll (writeOrder e) (createPostFile e) (filter isPublic posts) s2")
        have "P (snd (promiseAll (writeOrder e) (createPostFile e) (filter isPublic posts) s2))"
        proof (rule promiseAll_invariant[of P, OF p2])
          fix x t assume x: "x \<in> set (filter isPublic posts)" and t: "P t"
          show "P (snd (createPostFile e x t))"
          proof (rule createPostFile_writes[of P, OF t])
            fix d
            show "P (snd (writeFile (publicDirPath, postFileName e x) d t))"
              by (rule wr[OF t]) (use x ps in auto)
          qed
        qed
        then have p4': "P s4" using pa by simp
        show ?thesis
        proof (cases r4)
          case (Inl err)
          then show ?thesis using m r1 rm r2 gp r3 pa p4' by (simp add: build_def)
        next
          case (Inr created)
          obtain r5 s5 where ci: "createIndexFile e (arraySort (newestFirst e) created) s4 = (r5, s5)"
            by (cases "createIndexFile e (arraySort (newestFirst e) created) s4")
          have "P s5" using p5[OF p4', of "arraySort (newestFirst e) created"] ci by simp
          then show ?thesis using m r1 rm r2 gp r3 pa Inr ci
            by (cases r5) (simp_all add: build_def Let_def)
        qed
      qed
    qed
  qed
qed

lemma build_invariant:
  assumes p: "P s"
    and mk: "\<And>t. P t \<Longrightarrow> P (snd (mkdir publicDirPath t))"
    and ul: "\<And>t n. P t \<Longrightarrow> htmlName n \<Longrightarrow> P (snd (unlink (publicDirPath, n) t))"
    and wr: "\<And>t n d. P t \<Longrightarrow> htmlName n \<Longrightarrow> P (snd (writeFile (publicDirPath, n) d t))"
  shows "P (snd (build e s))"
proof (rule build_invariant_names[of P, OF p mk ul])
  fix t n d
  assume t: "P t"
    and n: "n = ''index.html'' \<or> (\<exists>posts p. fst (getPosts e postsDirPath s) = Inr posts
            \<and> p \<in> set posts \<and> isPublic p \<and> n = postFileName e p)"
  have "htmlName n" using n htmlName_index htmlName_postFileName by auto
  then show "P (snd (writeFile (publicDirPath, n) d t))" by (rule wr[OF t])
qed

lemma build_posts_kept: "postsNode (snd (build e s)) = postsNode s"
  by (rule build_invariant[of "\<lambda>t. postsNode t = postsNode s"])
     (simp_all add: mkdir_posts unlink_posts writeFile_posts)

section \<open>The reset of the output directory\<close>

lemma filter_delete_other:
  "\<not> Q k \<Longrightarrow> filter (\<lambda>en. Q (fst en)) (AList.delete k es) = filter (\<lambda>en. Q (fst en)) es"
  by (induction es) auto

lemma filter_update_other:
  "\<not> Q k \<Longrightarrow> filter (\<lambda>en. Q (fst en)) (AList.update k v es) = filter (\<lambda>en. Q (fst en)) es"
  by (induction es) auto

lemma map_of_filter_key:
  "Q k \<Longrightarrow> map_of (filter (\<lambda>en. Q (fst en)) es) k = map_of es k"
  by (induction es) auto

lemma publicNode_setNode: "publicNode (setNode publicDirPath n s) = n"
  by simp

lemma postsNode_setNode_public: "postsNode (setNode publicDirPath n s) = postsNode s"
  by simp

lemma unlink_keeps:
  assumes "htmlName n" and "publicNode t = Some (Dir es')"
  shows "\<exists>es''. publicNode (snd (unlink (publicDirPath, n) t)) = Some (Dir es'')
           \<and> filter (\<lambda>en. \<not> htmlName (fst en)) es'' = filter (\<lambda>en. \<not> htmlName (fst en)) es'"
proof -
  obtain r t' where u: "unlink (publicDirPath, n) t = (r, t')" by (cases "unlink (publicDirPath, n) t")
  show ?thesis using unlink_cases[OF u] u assms
    by (auto simp: filter_delete_other[where Q="\<lambda>k. \<not> htmlName k"])
qed

lemma writeFile_keeps:
  assumes "htmlName n" and "publicNode t = Some (Dir es')"
  shows "\<exists>es''. publicNode (snd (writeFile (publicDirPath, n) d t)) = Some (Dir es'')
           \<and> filter (\<lambda>en. \<not> htmlName (fst en)) es'' = filter (\<lambda>en. \<not> htmlName (fst en)) es'"
proof -
  obtain r t' where w: "writeFile (publicDirPath, n) d t = (r, t')" by (cases "writeFile (publicDirPath, n) d t")
  show ?thesis using writeFile_cases[OF w] w assms
    by (auto simp: filter_update_other[where Q="\<lambda>k. \<not> htmlName k"])
qed

lemma unlinkAll_entries:
  assumes "settleInOrder (\<lambda>fileName. unlink (pathResolve d fileName)) ns s = (Inr rs, s')"
    and "nodeAt s d = Some (Dir es)"
  shows "nodeAt s' d = Some (Dir (filter (\<lambda>en. fst en \<notin> set ns) es))"
  using assms
proof (induction ns arbitrary: s es rs)
  case Nil
  then show ?case by simp
next
  case (Cons n ns)
  obtain r s1 where u: "unlink (d, n) s = (r, s1)" by (cases "unlink (d, n) s")
  obtain rs' s2 where p: "settleInOrder (\<lambda>fileName. unlink (pathResolve d fileName)) ns s1 = (rs', s2)"
    by (cases "settleInOrder (\<lambda>fileName. unlink (pathResolve d fileName)) ns s1")
  from Cons.prems(1) u p obtain v vs where r: "r = Inr v" and rs': "rs' = Inr vs" and s2: "s2 = s'"
    by (auto simp: pathResolve_def split: sum.splits)
  from unlink_cases[OF u] r Cons.prems(2)
  have s1: "nodeAt s1 d = Some (Dir (AList.delete n es))"
    by (auto simp: nodeAt_setNode)
  have "nodeAt s' d = Some (Dir (filter (\<lambda>en. fst en \<notin> set ns) (AList.delete n es)))"
    using Cons.IH[OF p[unfolded rs' s2] s1] .
  moreover have "filter (\<lambda>en. fst en \<notin> set ns) (AList.delete n es) = filter (\<lambda>en. fst en \<notin> set (n # ns)) es"
    by (induction es) auto
  ultimately show ?case by simp
qed

lemma removeFiles_resets:
  assumes "removeFiles e publicDirPath ''.html'' s = (Inr r, s2)"
  shows "getFiles publicDirPath ''.html'' s2 = Inr []"
proof -
  obtain ns where g: "getFiles publicDirPath ''.html'' s = Inr ns"
    using assms by (cases "getFiles publicDirPath ''.html'' s") (auto simp: removeFiles_def)
  obtain es where d: "nodeAt s publicDirPath = Some (Dir es)"
    using g unfolding getFiles_def readdir_def by (auto split: option.splits node.splits)
  have ns: "ns = map fst (filter htmlFile es)" using g getFiles_html[OF d] by simp
  have "promiseAll (unlinkOrder e) (\<lambda>fileName. unlink (pathResolve publicDirPath fileName)) ns s = (Inr r, s2)"
    using assms g by (simp add: removeFiles_def)
  from promiseAll_Inr_settle[OF this] obtain vs where
    p: "settleInOrder (\<lambda>fileName. unlink (pathResolve publicDirPath fileName)) (scheduled (unlinkOrder e) ns) s = (Inr vs, s2)"
    by blast
  have d2: "nodeAt s2 publicDirPath = Some (Dir (filter (\<lambda>en. fst en \<notin> set ns) es))"
    using unlinkAll_entries[OF p d] by (simp add: scheduled_set)
  have "filter htmlFile (filter (\<lambda>en. fst en \<notin> set ns) es) = []"
    unfolding ns by (auto simp: filter_empty_conv)
  then show ?thesis using getFiles_html[OF d2] by simp
qed

lemma fsState_eqI:
  "postsNode s = postsNode t \<Longrightarrow> publicNode s = publicNode t \<Longrightarrow> (s :: fsState) = t"
  by (cases s; cases t) simp

lemma unlinkAll_ok:
  assumes "nodeAt s d = Some (Dir es)" and "distinct ns"
    and "\<forall>n\<in>set ns. \<exists>c. map_of es n = Some (File c)"
  shows "settleInOrder (\<lambda>fileName. unlink (pathResolve d fileName)) ns s
       = (Inr (map (\<lambda>_. ()) ns), setNode d (Some (Dir (filter (\<lambda>en. fst en \<notin> set ns) es))) s)"
  using assms
proof (induction ns arbitrary: s es)
  case Nil
  then show ?case by (simp add: setNode_same)
next
  case (Cons n ns)
  obtain c where c: "map_of es n = Some (File c)" using Cons.prems(3) by auto
  let ?s1 = "setNode d (Some (Dir (AList.delete n es))) s"
  have u: "unlink (pathResolve d n) s = (Inr (), ?s1)"
    using Cons.prems(1) c by (simp add: unlink_def pathResolve_def)
  have d1: "nodeAt ?s1 d = Some (Dir (AList.delete n es))" by (simp add: nodeAt_setNode)
  have l1: "\<forall>m\<in>set ns. \<exists>c. map_of (AList.delete n es) m = Some (File c)"
    using Cons.prems(2,3) by (auto simp: delete_conv')
  have dn: "distinct ns" using Cons.prems(2) by simp
  have f: "filter (\<lambda>en. fst en \<notin> set ns) (AList.delete n es) = filter (\<lambda>en. fst en \<notin> set (n # ns)) es"
    by (induction es) auto
  show ?case
    using Cons.IH[OF d1 dn l1] u by (simp add: setNode_setNode f)
qed

text \<open>
  In a directory whose entries have different names the reset succeeds and leaves the
  entries that are not HTML files, in whatever order the \<^verbatim>\<open>unlink\<close> calls complete.
\<close>

lemma removeFiles_exact:
  assumes "publicNode s = Some (Dir es)" and "distinct (map fst es)"
  shows "removeFiles e publicDirPath ''.html'' s
       = (Inr (map (\<lambda>_. ()) (filter htmlFile es)),
          s\<lparr>publicNode := Some (Dir (filter (\<lambda>en. \<not> htmlFile en) es))\<rparr>)"
proof -
  let ?ns = "map fst (filter htmlFile es)"
  let ?ms = "scheduled (unlinkOrder e) ?ns"
  have d: "nodeAt s publicDirPath = Some (Dir es)" using assms(1) by simp
  have g: "getFiles publicDirPath ''.html'' s = Inr ?ns" by (rule getFiles_html[OF d])
  have dn: "distinct ?ns" using assms(2) by (rule distinct_map_filter)
  have dm: "distinct ?ms" using scheduled_distinct_map[of "\<lambda>x. x" ?ns "unlinkOrder e"] dn by simp
  have lk: "\<forall>n\<in>set ?ms. \<exists>c. map_of es n = Some (File c)"
  proof
    fix n assume "n \<in> set ?ms"
    then have "n \<in> set ?ns" by (simp add: scheduled_set)
    then obtain nd where m: "(n, nd) \<in> set es" and h: "htmlFile (n, nd)" by auto
    from h obtain c where "nd = File c" by (cases nd) (auto simp: htmlFile_def)
    then show "\<exists>c. map_of es n = Some (File c)" using m assms(2) by auto
  qed
  have f: "filter (\<lambda>en. fst en \<notin> set ?ms) es = filter (\<lambda>en. \<not> htmlFile en) es"
  proof (rule filter_cong[OF refl])
    fix en assume en: "en \<in> set es"
    show "(fst en \<notin> set ?ms) = (\<not> htmlFile en)"
    proof
      assume a: "fst en \<notin> set ?ms"
      then have "fst en \<notin> set ?ns" by (simp add: scheduled_set)
      then show "\<not> htmlFile en" using en by force
    next
      assume b: "\<not> htmlFile en"
      show "fst en \<notin> set ?ms"
      proof
        assume "fst en \<in> set ?ms"
        then have "fst en \<in> set ?ns" by (simp add: scheduled_set)
        then obtain en' where e': "en' \<in> set es" "htmlFile en'" "fst en' = fst en" by auto
        have "en' = en"
          using eq_key_imp_eq_value[OF assms(2), of "fst en" "snd en'" "snd en"] e' en
          by (metis prod.collapse)
        then show False using e'(2) b by simp
      qed
    qed
  qed
  have "settleInOrder (\<lambda>fileName. unlink (pathResolve publicDirPath fileName)) ?ms s
      = (Inr (map (\<lambda>_. ()) ?ms), setNode publicDirPath (Some (Dir (filter (\<lambda>en. \<not> htmlFile en) es))) s)"
    using unlinkAll_ok[OF d dm lk] unfolding f .
  from promiseAll_of_settle[OF this, of "\<lambda>_. ()"]
  have "promiseAll (unlinkOrder e) (\<lambda>fileName. unlink (pathResolve publicDirPath fileName)) ?ns s
      = (Inr (map (\<lambda>_. ()) ?ns), setNode publicDirPath (Some (Dir (filter (\<lambda>en. \<not> htmlFile en) es))) s)"
    by simp
  then show ?thesis
    unfolding removeFiles_def g by (simp add: comp_def)
qed

lemma build_same_reset:
  assumes "publicNode s = Some (Dir es)" and "distinct (map fst es)"
    and "publicNode t = Some (Dir et)" and "distinct (map fst et)"
    and "postsNode s = postsNode t"
    and "filter (\<lambda>en. \<not> htmlFile en) es = filter (\<lambda>en. \<not> htmlFile en) et"
  shows "build e s = build e t"
proof -
  let ?X = "Some (Dir (filter (\<lambda>en. \<not> htmlFile en) es))"
  have ms: "mkdir publicDirPath s = (Inr (), s)" using assms(1) by (simp add: mkdir_def)
  have mt: "mkdir publicDirPath t = (Inr (), t)" using assms(3) by (simp add: mkdir_def)
  have eq: "s\<lparr>publicNode := ?X\<rparr> = t\<lparr>publicNode := ?X\<rparr>"
    by (rule fsState_eqI) (simp_all add: assms(5))
  show ?thesis
    using eq assms(6)
    by (simp add: build_def ms mt removeFiles_exact[OF assms(1,2)] removeFiles_exact[OF assms(3,4)])
qed

lemma build_after_reset:
  assumes "publicNode s = Some (Dir es)" and "distinct (map fst es)"
  shows "build e s = build e (s\<lparr>publicNode := Some (Dir (filter (\<lambda>en. \<not> htmlFile en) es))\<rparr>)"
  by (rule build_same_reset[OF assms, where et="filter (\<lambda>en. \<not> htmlFile en) es"])
     (simp_all add: distinct_map_filter assms(2))

lemma filter_delete_file:
  assumes "distinct (map fst es)" and "map_of es n = Some nd" and "Q (n, nd)"
  shows "filter (\<lambda>en. \<not> Q en) (AList.delete n es) = filter (\<lambda>en. \<not> Q en) es"
  using assms
proof (induction es)
  case Nil
  then show ?case by simp
next
  case (Cons a es)
  show ?case
  proof (cases "fst a = n")
    case True
    then have a: "a = (n, nd)" using Cons.prems(2) by (cases a) simp
    have "n \<notin> fst ` set es" using Cons.prems(1) True by auto
    then have "AList.delete n es = es" by (simp add: delete_id image_iff)
    then show ?thesis using a Cons.prems(3) by simp
  next
    case False
    then have "map_of es n = Some nd" using Cons.prems(2) by (cases a) auto
    then show ?thesis using Cons.IH Cons.prems(1,3) False by (cases a) auto
  qed
qed

lemma filter_update_file:
  assumes "Q (n, v)" and "\<And>w. map_of es n = Some w \<Longrightarrow> Q (n, w)"
  shows "filter (\<lambda>en. \<not> Q en) (AList.update n v es) = filter (\<lambda>en. \<not> Q en) es"
  using assms
proof (induction es)
  case Nil
  then show ?case by simp
next
  case (Cons a es)
  then show ?case by (cases a) auto
qed

lemma htmlFile_File: "htmlName n \<Longrightarrow> htmlFile (n, File c)"
  by (simp add: htmlFile_def)

section \<open>The order of the index\<close>

lemma mset_insertElement: "mset (insertElement c x ys) = add_mset x (mset ys)"
  by (induction ys) auto

lemma set_insertElement: "set (insertElement c x ys) = insert x (set ys)"
  by (induction ys) auto

lemma mset_foldl_insertElement:
  "mset (foldl (\<lambda>acc x. insertElement c x acc) acc xs) = mset acc + mset xs"
  by (induction xs arbitrary: acc) (auto simp: mset_insertElement)

lemma mset_arraySort: "mset (arraySort c xs) = mset xs"
  by (simp add: arraySort_def mset_foldl_insertElement)

lemma set_arraySort: "set (arraySort c xs) = set xs"
  using mset_arraySort[of c xs] by (metis set_mset_mset)

lemma insertElement_sorted:
  fixes k :: "'a \<Rightarrow> int"
  assumes "\<forall>y\<in>set ys. (0 < sortCompare c y x) = (k y < k x)"
    and "sorted_wrt (\<lambda>a b. k a \<le> k b) ys"
  shows "sorted_wrt (\<lambda>a b. k a \<le> k b) (insertElement c x ys)"
  using assms
proof (induction ys)
  case Nil
  then show ?case by simp
next
  case (Cons y ys)
  show ?case
  proof (cases "0 < sortCompare c y x")
    case True
    then have "k y < k x" using Cons.prems(1) by simp
    moreover have "sorted_wrt (\<lambda>a b. k a \<le> k b) (insertElement c x ys)"
      using Cons.IH Cons.prems by simp
    ultimately show ?thesis using True Cons.prems(2) by (auto simp: set_insertElement)
  next
    case False
    then have "k x \<le> k y" using Cons.prems(1) by simp
    then show ?thesis using False Cons.prems(2) by fastforce
  qed
qed

lemma foldl_insertElement_sorted:
  fixes k :: "'a \<Rightarrow> int"
  assumes "\<forall>x\<in>set xs \<union> set acc. \<forall>y\<in>set xs \<union> set acc. (0 < sortCompare c y x) = (k y < k x)"
    and "sorted_wrt (\<lambda>a b. k a \<le> k b) acc"
  shows "sorted_wrt (\<lambda>a b. k a \<le> k b) (foldl (\<lambda>acc x. insertElement c x acc) acc xs)"
  using assms
proof (induction xs arbitrary: acc)
  case Nil
  then show ?case by simp
next
  case (Cons x xs)
  have s: "sorted_wrt (\<lambda>a b. k a \<le> k b) (insertElement c x acc)"
    by (rule insertElement_sorted) (use Cons.prems in auto)
  have "\<forall>a\<in>set xs \<union> set (insertElement c x acc). \<forall>b\<in>set xs \<union> set (insertElement c x acc).
          (0 < sortCompare c b a) = (k b < k a)"
    using Cons.prems(1) by (auto simp: set_insertElement)
  then show ?case using Cons.IH[OF _ s] by simp
qed

lemma arraySort_sorted:
  fixes k :: "'a \<Rightarrow> int"
  assumes "\<forall>x\<in>set xs. \<forall>y\<in>set xs. (0 < sortCompare c y x) = (k y < k x)"
  shows "sorted_wrt (\<lambda>a b. k b \<le> k a) (arraySort c xs)"
proof -
  have "sorted_wrt (\<lambda>a b. k a \<le> k b) (foldl (\<lambda>acc x. insertElement c x acc) [] xs)"
    by (rule foldl_insertElement_sorted) (use assms in auto)
  then show ?thesis by (simp add: arraySort_def sorted_wrt_rev)
qed

lemma arraySort_newestFirst:
  assumes "\<forall>p\<in>set posts. \<exists>t. newDate e (getProp p ''date'') = Some t"
  shows "sorted_wrt (\<lambda>a b. \<exists>ta tb. newDate e (getProp a ''date'') = Some ta
            \<and> newDate e (getProp b ''date'') = Some tb \<and> tb \<le> ta) (arraySort (newestFirst e) posts)"
proof -
  let ?k = "\<lambda>p. the (newDate e (getProp p ''date''))"
  have c: "\<forall>x\<in>set posts. \<forall>y\<in>set posts. (0 < sortCompare (newestFirst e) y x) = (?k y < ?k x)"
  proof (intro ballI)
    fix x y assume "x \<in> set posts" "y \<in> set posts"
    then obtain tx ty where "newDate e (getProp x ''date'') = Some tx"
      "newDate e (getProp y ''date'') = Some ty" using assms by blast
    then show "(0 < sortCompare (newestFirst e) y x) = (?k y < ?k x)"
      by (simp add: sortCompare_def newestFirst_def)
  qed
  have "sorted_wrt (\<lambda>a b. ?k b \<le> ?k a) (arraySort (newestFirst e) posts)"
    by (rule arraySort_sorted[OF c])
  then show ?thesis
  proof (rule sorted_wrt_mono_rel[rotated])
    fix x y assume "x \<in> set (arraySort (newestFirst e) posts)" "y \<in> set (arraySort (newestFirst e) posts)"
      and le: "?k y \<le> ?k x"
    then obtain tx ty where "newDate e (getProp x ''date'') = Some tx"
      "newDate e (getProp y ''date'') = Some ty" using assms unfolding set_arraySort by blast
    then show "\<exists>ta tb. newDate e (getProp x ''date'') = Some ta
            \<and> newDate e (getProp y ''date'') = Some tb \<and> tb \<le> ta"
      using le by simp
  qed
qed

lemma arraySort_oldestFirst:
  assumes "\<forall>p\<in>set posts. \<exists>t. newDate e (getProp p ''date'') = Some t"
  shows "sorted_wrt (\<lambda>a b. \<exists>ta tb. newDate e (getProp a ''date'') = Some ta
            \<and> newDate e (getProp b ''date'') = Some tb \<and> ta \<le> tb) (arraySort (oldestFirst e) posts)"
proof -
  let ?k = "\<lambda>p. - the (newDate e (getProp p ''date''))"
  have c: "\<forall>x\<in>set posts. \<forall>y\<in>set posts. (0 < sortCompare (oldestFirst e) y x) = (?k y < ?k x)"
  proof (intro ballI)
    fix x y assume "x \<in> set posts" "y \<in> set posts"
    then obtain tx ty where "newDate e (getProp x ''date'') = Some tx"
      "newDate e (getProp y ''date'') = Some ty" using assms by blast
    then show "(0 < sortCompare (oldestFirst e) y x) = (?k y < ?k x)"
      by (simp add: sortCompare_def oldestFirst_def)
  qed
  have "sorted_wrt (\<lambda>a b. ?k b \<le> ?k a) (arraySort (oldestFirst e) posts)"
    by (rule arraySort_sorted[OF c])
  then show ?thesis
  proof (rule sorted_wrt_mono_rel[rotated])
    fix x y assume "x \<in> set (arraySort (oldestFirst e) posts)" "y \<in> set (arraySort (oldestFirst e) posts)"
      and le: "?k y \<le> ?k x"
    then obtain tx ty where "newDate e (getProp x ''date'') = Some tx"
      "newDate e (getProp y ''date'') = Some ty" using assms unfolding set_arraySort by blast
    then show "\<exists>ta tb. newDate e (getProp x ''date'') = Some ta
            \<and> newDate e (getProp y ''date'') = Some tb \<and> ta \<le> tb"
      using le by simp
  qed
qed


section \<open>A run that succeeds\<close>

lemma createPostFile_returns:
  "createPostFile e post s = (Inr r, s') \<Longrightarrow> r = post"
  using createPostFile_cases[of e post s "Inr r" s'] by auto

lemma settleInOrder_Inr_each:
  assumes "settleInOrder f xs s = (Inr ys, s')" and "x \<in> set xs"
  shows "\<exists>t r t'. f x t = (Inr r, t')"
  using assms
proof (induction xs arbitrary: s ys)
  case Nil
  then show ?case by simp
next
  case (Cons a xs)
  obtain r s1 where f: "f a s = (r, s1)" by (cases "f a s")
  obtain rs s2 where p: "settleInOrder f xs s1 = (rs, s2)" by (cases "settleInOrder f xs s1")
  from Cons.prems(1) f p obtain v vs where r: "r = Inr v" and rs: "rs = Inr vs" and s2: "s2 = s'"
    by (auto split: sum.splits)
  show ?case
  proof (cases "x = a")
    case True
    then show ?thesis using f r by blast
  next
    case False
    then have "x \<in> set xs" using Cons.prems(2) by simp
    then show ?thesis using Cons.IH[OF p[unfolded rs s2]] by blast
  qed
qed

lemma promiseAll_Inr_each:
  assumes "promiseAll pref f xs s = (Inr ys, s')" and "x \<in> set xs"
  shows "\<exists>t r t'. f x t = (Inr r, t')"
proof -
  from promiseAll_Inr_settle[OF assms(1)] obtain vs where
    p: "settleInOrder f (scheduled pref xs) s = (Inr vs, s')" by blast
  have "x \<in> set (scheduled pref xs)" using assms(2) by (simp add: scheduled_set)
  from settleInOrder_Inr_each[OF p this] show ?thesis .
qed

lemma build_success:
  assumes "build e s = (Inr created, s')"
  obtains s1 s2 posts s4 u1 u2 vs where
    "mkdir publicDirPath s = (Inr u1, s1)"
    "removeFiles e publicDirPath ''.html'' s1 = (Inr u2, s2)"
    "getPosts e postsDirPath s2 = (Inr posts, s2)"
    "promiseAll (writeOrder e) (createPostFile e) (filter isPublic posts) s2 = (Inr (filter isPublic posts), s4)"
    "settleInOrder (createPostFile e) (scheduled (writeOrder e) (filter isPublic posts)) s2 = (Inr vs, s4)"
    "created = arraySort (newestFirst e) (filter isPublic posts)"
    "createIndexFile e created s4 = (Inr (), s')"
proof -
  obtain r1 s1 where m: "mkdir publicDirPath s = (r1, s1)" by (cases "mkdir publicDirPath s")
  obtain r2 s2 where rm: "removeFiles e publicDirPath ''.html'' s1 = (r2, s2)"
    by (cases "removeFiles e publicDirPath ''.html'' s1")
  obtain r3 where gp: "getPosts e postsDirPath s2 = (r3, s2)"
    using getPosts_state[of e postsDirPath s2] by (cases "getPosts e postsDirPath s2") simp
  from assms m obtain u1 where r1: "r1 = Inr u1"
    by (cases r1) (simp_all add: build_def)
  from assms m r1 rm obtain u2 where r2: "r2 = Inr u2"
    by (cases r2) (simp_all add: build_def)
  from assms m r1 rm r2 gp obtain posts where r3: "r3 = Inr posts"
    by (cases r3) (simp_all add: build_def)
  obtain r4 s4 where pa: "promiseAll (writeOrder e) (createPostFile e) (filter isPublic posts) s2 = (r4, s4)"
    by (cases "promiseAll (writeOrder e) (createPostFile e) (filter isPublic posts) s2")
  from assms m r1 rm r2 gp r3 pa obtain created0 where r4: "r4 = Inr created0"
    by (cases r4) (simp_all add: build_def)
  have c0: "created0 = map (\<lambda>p. p) (filter isPublic posts)"
    by (rule promiseAll_Inr_all[OF pa[unfolded r4]]) (rule createPostFile_returns)
  from promiseAll_Inr_settle[OF pa[unfolded r4]] obtain vs where
    st: "settleInOrder (createPostFile e) (scheduled (writeOrder e) (filter isPublic posts)) s2 = (Inr vs, s4)"
    by blast
  obtain r5 s5 where ci: "createIndexFile e (arraySort (newestFirst e) created0) s4 = (r5, s5)"
    by (cases "createIndexFile e (arraySort (newestFirst e) created0) s4")
  from assms m r1 rm r2 gp r3 pa r4 ci have r5: "r5 = Inr ()" and cr: "created = arraySort (newestFirst e) created0"
    and s5: "s5 = s'"
    by (cases r5; simp add: build_def Let_def)+
  show ?thesis
    using that[of u1 s1 u2 s2 posts s4 vs] m r1 rm r2 gp r3 pa r4 c0 st ci r5 cr s5 by simp
qed

lemma build_success_posts:
  assumes "build e s = (Inr created, s')"
  shows "\<exists>posts. getPosts e postsDirPath s = (Inr posts, s)
           \<and> created = arraySort (newestFirst e) (filter isPublic posts)"
proof -
  obtain s1 s2 posts s4 u1 u2 vs where
    m: "mkdir publicDirPath s = (Inr u1, s1)" and
    rm: "removeFiles e publicDirPath ''.html'' s1 = (Inr u2, s2)" and
    gp: "getPosts e postsDirPath s2 = (Inr posts, s2)" and
    cr: "created = arraySort (newestFirst e) (filter isPublic posts)"
    by (rule build_success[OF assms])
  have "postsNode s2 = postsNode s" using reset_posts[of e s] m rm by simp
  from getPosts_posts[OF this, of e] gp have "fst (getPosts e postsDirPath s) = Inr posts" by simp
  then have "getPosts e postsDirPath s = (Inr posts, s)"
    using getPosts_state[of e postsDirPath s] by (simp add: prod_eq_iff)
  then show ?thesis using cr by blast
qed

lemma writeFile_written:
  assumes "writeFile (publicDirPath, n) d s = (Inr u, s')"
  shows "readFile (pathResolve publicDirPath n) s' = Inr d"
  using writeFile_cases[OF assms]
  by (auto simp: readFile_def pathResolve_def update_conv')

lemma writeFile_keeps_file:
  assumes "readFile (pathResolve publicDirPath n) s = Inr c"
  shows "\<exists>c'. readFile (pathResolve publicDirPath n) (snd (writeFile (publicDirPath, m) d s)) = Inr c'"
proof -
  obtain r s' where w: "writeFile (publicDirPath, m) d s = (r, s')"
    by (cases "writeFile (publicDirPath, m) d s")
  from writeFile_cases[OF w] show ?thesis
  proof
    assume "s' = s \<and> (\<exists>err. r = Inl err)"
    then show ?thesis using w assms by simp
  next
    assume "\<exists>es. nodeAt s (fst (publicDirPath, m)) = Some (Dir es)
        \<and> (\<forall>sub. map_of es (snd (publicDirPath, m)) \<noteq> Some (Dir sub))
        \<and> s' = setNode (fst (publicDirPath, m)) (Some (Dir (AList.update (snd (publicDirPath, m)) (File d) es))) s
        \<and> r = Inr ()"
    then obtain es where es: "publicNode s = Some (Dir es)"
      and s': "s' = s\<lparr>publicNode := Some (Dir (AList.update m (File d) es))\<rparr>" by auto
    show ?thesis
    proof (cases "n = m")
      case True
      then show ?thesis using w s' by (simp add: readFile_def pathResolve_def update_conv')
    next
      case False
      then have "readFile (pathResolve publicDirPath n) s' = readFile (pathResolve publicDirPath n) s"
        using s' es by (simp add: readFile_def pathResolve_def update_conv')
      then show ?thesis using w assms by simp
    qed
  qed
qed

lemma createPosts_written:
  assumes "settleInOrder (createPostFile e) ps s = (Inr vs, s4)" and "p \<in> set ps"
  shows "\<exists>c. readFile (pathResolve publicDirPath (postFileName e p)) s4 = Inr c"
  using assms
proof (induction ps arbitrary: s vs)
  case Nil
  then show ?case by simp
next
  case (Cons a ps)
  let ?R = "\<lambda>t. \<exists>c. readFile (pathResolve publicDirPath (postFileName e p)) t = Inr c"
  obtain r s1 where f: "createPostFile e a s = (r, s1)" by (cases "createPostFile e a s")
  obtain rs s2 where pa: "settleInOrder (createPostFile e) ps s1 = (rs, s2)"
    by (cases "settleInOrder (createPostFile e) ps s1")
  from Cons.prems(1) f pa obtain v ws where r: "r = Inr v" and rs: "rs = Inr ws" and s2: "s2 = s4"
    by (auto split: sum.splits)
  show ?case
  proof (cases "p \<in> set ps")
    case True
    then show ?thesis using Cons.IH[OF pa[unfolded rs s2]] by blast
  next
    case False
    then have pa': "p = a" using Cons.prems(2) by simp
    from createPostFile_cases[OF f] r obtain fileData where
      w: "writeFile (publicDirPath, postFileName e a) fileData s = (Inr (), s1)" by auto
    have r1: "?R s1" using writeFile_written[OF w] pa' by blast
    have "?R (snd (settleInOrder (createPostFile e) ps s1))"
    proof (rule settleInOrder_invariant[of ?R, OF r1])
      fix x t assume t: "?R t"
      show "?R (snd (createPostFile e x t))"
      proof (rule createPostFile_writes[of ?R, OF t])
        fix d from t obtain c where "readFile (pathResolve publicDirPath (postFileName e p)) t = Inr c"
          by blast
        from writeFile_keeps_file[OF this]
        show "?R (snd (writeFile (publicDirPath, postFileName e x) d t))" .
      qed
    qed
    then show ?thesis using pa s2 by simp
  qed
qed

text \<open>
  After a run that succeeds every post created has its file in the output directory,
  and the index is there with the page rendered from the posts created.
\<close>

lemma build_success_files:
  assumes "build e s = (Inr created, s')"
  shows "(\<forall>p\<in>set created. \<exists>c. readFile (pathResolve publicDirPath (postFileName e p)) s' = Inr c)
       \<and> (\<exists>page. nunjucksRender e (getTemplatePath e ''index'') [(''posts'', JArr (map JObj created))] = Inr page
            \<and> readFile (pathResolve publicDirPath ''index.html'') s' = Inr page)"
proof -
  obtain s1 s2 posts s4 u1 u2 vs where
    st: "settleInOrder (createPostFile e) (scheduled (writeOrder e) (filter isPublic posts)) s2 = (Inr vs, s4)" and
    cr: "created = arraySort (newestFirst e) (filter isPublic posts)" and
    ci: "createIndexFile e created s4 = (Inr (), s')"
    by (rule build_success[OF assms])
  from createIndexFile_cases[OF ci] obtain page where
    rn: "nunjucksRender e (getTemplatePath e ''index'') [(''posts'', JArr (map JObj created))] = Inr page"
    and w: "writeFile (publicDirPath, ''index.html'') page s4 = (Inr (), s')" by auto
  have ix: "readFile (pathResolve publicDirPath ''index.html'') s' = Inr page"
    by (rule writeFile_written[OF w])
  have "\<exists>c. readFile (pathResolve publicDirPath (postFileName e p)) s' = Inr c" if "p \<in> set created" for p
  proof -
    have "p \<in> set (scheduled (writeOrder e) (filter isPublic posts))"
      using that cr by (simp add: scheduled_set set_arraySort)
    from createPosts_written[OF st this] obtain c where
      "readFile (pathResolve publicDirPath (postFileName e p)) s4 = Inr c" by blast
    from writeFile_keeps_file[OF this, of "''index.html''" page] w show ?thesis by simp
  qed
  then show ?thesis using rn ix by blast
qed

section \<open>What the reset keeps and what it removes\<close>

lemma build_removes_old_html:
  assumes "publicNode s = Some (Dir es)" and "distinct (map fst es)"
    and "htmlName n" and "n \<noteq> ''index.html''"
    and "\<forall>posts p. fst (getPosts e postsDirPath s) = Inr posts \<and> p \<in> set posts \<and> isPublic p
           \<longrightarrow> n \<noteq> postFileName e p"
  shows "readFile (pathResolve publicDirPath n) (snd (build e s)) \<noteq> Inr c"
proof -
  let ?s0 = "s\<lparr>publicNode := Some (Dir (filter (\<lambda>en. \<not> htmlFile en) es))\<rparr>"
  let ?R = "\<lambda>t. \<exists>es'. publicNode t = Some (Dir es') \<and> (\<forall>c. map_of es' n \<noteq> Some (File c))"
  have same: "fst (getPosts e postsDirPath ?s0) = fst (getPosts e postsDirPath s)"
    by (rule getPosts_posts) simp
  have r0: "?R ?s0"
  proof -
    have "map_of (filter (\<lambda>en. \<not> htmlFile en) es) n \<noteq> Some (File c)" for c
    proof
      assume "map_of (filter (\<lambda>en. \<not> htmlFile en) es) n = Some (File c)"
      then have "(n, File c) \<in> set (filter (\<lambda>en. \<not> htmlFile en) es)" by (rule map_of_SomeD)
      then show False using assms(3) by (simp add: htmlFile_def)
    qed
    then show ?thesis by simp
  qed
  have mk: "?R (snd (mkdir publicDirPath t))" if "?R t" for t
    using that by (auto simp: mkdir_def)
  have ul: "?R (snd (unlink (publicDirPath, k) t))" if "?R t" for t k
  proof -
    obtain r t' where u: "unlink (publicDirPath, k) t = (r, t')" by (cases "unlink (publicDirPath, k) t")
    from that obtain es' where e': "publicNode t = Some (Dir es')" "\<forall>c. map_of es' n \<noteq> Some (File c)"
      by blast
    from unlink_cases[OF u] show ?thesis
    proof
      assume "t' = t \<and> (\<exists>err. r = Inl err)"
      then show ?thesis using u that by simp
    next
      assume "\<exists>es0 c. nodeAt t (fst (publicDirPath, k)) = Some (Dir es0) \<and> map_of es0 (snd (publicDirPath, k)) = Some (File c)
              \<and> t' = setNode (fst (publicDirPath, k)) (Some (Dir (AList.delete (snd (publicDirPath, k)) es0))) t \<and> r = Inr ()"
      then have t': "t' = t\<lparr>publicNode := Some (Dir (AList.delete k es'))\<rparr>" using e'(1) by auto
      have "\<forall>c. map_of (AList.delete k es') n \<noteq> Some (File c)"
        using e'(2) by (simp add: delete_conv')
      then show ?thesis using u t' by simp
    qed
  qed
  have wr: "?R (snd (writeFile (publicDirPath, k) d t))"
    if "?R t" and k: "k = ''index.html'' \<or> (\<exists>posts p. fst (getPosts e postsDirPath ?s0) = Inr posts
            \<and> p \<in> set posts \<and> isPublic p \<and> k = postFileName e p)" for t k d
  proof -
    have kn: "k \<noteq> n" using k assms(4,5) unfolding same by auto
    obtain r t' where w: "writeFile (publicDirPath, k) d t = (r, t')" by (cases "writeFile (publicDirPath, k) d t")
    from that(1) obtain es' where e': "publicNode t = Some (Dir es')" "\<forall>c. map_of es' n \<noteq> Some (File c)"
      by blast
    from writeFile_cases[OF w] show ?thesis
    proof
      assume "t' = t \<and> (\<exists>err. r = Inl err)"
      then show ?thesis using w that(1) by simp
    next
      assume "\<exists>es0. nodeAt t (fst (publicDirPath, k)) = Some (Dir es0) \<and> (\<forall>sub. map_of es0 (snd (publicDirPath, k)) \<noteq> Some (Dir sub))
              \<and> t' = setNode (fst (publicDirPath, k)) (Some (Dir (AList.update (snd (publicDirPath, k)) (File d) es0))) t \<and> r = Inr ()"
      then have t': "t' = t\<lparr>publicNode := Some (Dir (AList.update k (File d) es'))\<rparr>" using e'(1) by auto
      have "\<forall>c. map_of (AList.update k (File d) es') n \<noteq> Some (File c)"
        using e'(2) kn by (simp add: update_conv')
      then show ?thesis using w t' by simp
    qed
  qed
  have "?R (snd (build e ?s0))"
    by (rule build_invariant_names[of ?R, OF r0 mk ul wr])
  then have "?R (snd (build e s))" using build_after_reset[OF assms(1,2), of e] by simp
  then show ?thesis
    by (auto simp: readFile_def pathResolve_def split: option.splits node.splits)
qed

text \<open>
  Claim C7. \<^verbatim>\<open>build\<close> of \<^verbatim>\<open>src/index.js\<close> resets the output directory by deleting only
  the regular files with the HTML extension (the extension is matched on the lower-cased
  name), and it does so before it writes. The entries of the output directory whose
  name has another extension are after the run what they were before it, in the same
  order, and a file with such a name reads the same after the run as before it; after a
  reset that succeeded the directory has no HTML file left. In a directory (whose
  entries have different names) the run is the run on the directory without its HTML
  files, and an HTML file that is neither the index nor the file of a public post is not
  there after the run; the files written by a run that succeeds are there after it, so
  the reset does not come after a write.
\<close>

theorem build_keeps_other_files:
  assumes "publicNode s = Some (Dir es)"
  shows "(\<exists>es'. publicNode (snd (build e s)) = Some (Dir es')
            \<and> filter (\<lambda>en. \<not> htmlName (fst en)) es' = filter (\<lambda>en. \<not> htmlName (fst en)) es)
       \<and> (\<forall>n. \<not> htmlName n \<longrightarrow>
             readFile (pathResolve publicDirPath n) (snd (build e s)) = readFile (pathResolve publicDirPath n) s)
       \<and> (\<forall>r s2. removeFiles e publicDirPath ''.html'' s = (Inr r, s2) \<longrightarrow>
             getFiles publicDirPath ''.html'' s2 = Inr [])
       \<and> (distinct (map fst es) \<longrightarrow>
             build e s = build e (s\<lparr>publicNode := Some (Dir (filter (\<lambda>en. \<not> htmlFile en) es))\<rparr>)
           \<and> (\<forall>n. htmlName n \<and> n \<noteq> ''index.html''
                 \<and> (\<forall>posts p. fst (getPosts e postsDirPath s) = Inr posts \<and> p \<in> set posts \<and> isPublic p
                       \<longrightarrow> n \<noteq> postFileName e p)
                 \<longrightarrow> (\<forall>c. readFile (pathResolve publicDirPath n) (snd (build e s)) \<noteq> Inr c)))
       \<and> (\<forall>created. fst (build e s) = Inr created \<longrightarrow>
             (\<forall>p\<in>set created. \<exists>c. readFile (pathResolve publicDirPath (postFileName e p)) (snd (build e s)) = Inr c)
           \<and> (\<exists>page. nunjucksRender e (getTemplatePath e ''index'') [(''posts'', JArr (map JObj created))] = Inr page
                \<and> readFile (pathResolve publicDirPath ''index.html'') (snd (build e s)) = Inr page))"
proof -
  let ?P = "\<lambda>t. \<exists>es'. publicNode t = Some (Dir es')
            \<and> filter (\<lambda>en. \<not> htmlName (fst en)) es' = filter (\<lambda>en. \<not> htmlName (fst en)) es"
  have p0: "?P s" using assms by simp
  have mk: "?P (snd (mkdir publicDirPath t))" if "?P t" for t
    using that by (auto simp: mkdir_def)
  have ul: "?P (snd (unlink (publicDirPath, n) t))" if "?P t" "htmlName n" for t n
    using that unlink_keeps[OF that(2)] by metis
  have wr: "?P (snd (writeFile (publicDirPath, n) d t))" if "?P t" "htmlName n" for t n d
    using that writeFile_keeps[OF that(2)] by metis
  have fin: "?P (snd (build e s))"
    by (rule build_invariant[of ?P, OF p0 mk ul wr])
  then obtain es' where es': "publicNode (snd (build e s)) = Some (Dir es')"
    and eq: "filter (\<lambda>en. \<not> htmlName (fst en)) es' = filter (\<lambda>en. \<not> htmlName (fst en)) es"
    by blast
  have rd: "readFile (pathResolve publicDirPath n) (snd (build e s)) = readFile (pathResolve publicDirPath n) s"
    if "\<not> htmlName n" for n
  proof -
    have "map_of es' n = map_of es n"
      using map_of_filter_key[of "\<lambda>k. \<not> htmlName k" n es'] map_of_filter_key[of "\<lambda>k. \<not> htmlName k" n es] that eq
      by simp
    then show ?thesis using es' assms by (simp add: readFile_def pathResolve_def)
  qed
  have rs: "getFiles publicDirPath ''.html'' s2 = Inr []"
    if "removeFiles e publicDirPath ''.html'' s = (Inr r, s2)" for r s2
    by (rule removeFiles_resets[OF that])
  have ar: "build e s = build e (s\<lparr>publicNode := Some (Dir (filter (\<lambda>en. \<not> htmlFile en) es))\<rparr>)"
    if "distinct (map fst es)"
    by (rule build_after_reset[OF assms that])
  have old: "readFile (pathResolve publicDirPath n) (snd (build e s)) \<noteq> Inr c"
    if "distinct (map fst es)" and "htmlName n \<and> n \<noteq> ''index.html''
          \<and> (\<forall>posts p. fst (getPosts e postsDirPath s) = Inr posts \<and> p \<in> set posts \<and> isPublic p
                \<longrightarrow> n \<noteq> postFileName e p)" for n c
    by (rule build_removes_old_html[OF assms that(1)]) (use that(2) in blast)+
  have wrn: "(\<forall>p\<in>set created. \<exists>c. readFile (pathResolve publicDirPath (postFileName e p)) (snd (build e s)) = Inr c)
           \<and> (\<exists>page. nunjucksRender e (getTemplatePath e ''index'') [(''posts'', JArr (map JObj created))] = Inr page
                \<and> readFile (pathResolve publicDirPath ''index.html'') (snd (build e s)) = Inr page)"
    if "fst (build e s) = Inr created" for created
  proof -
    have "build e s = (Inr created, snd (build e s))" using that by (simp add: prod_eq_iff)
    then show ?thesis by (rule build_success_files)
  qed
  show ?thesis
  proof (intro conjI)
    show "\<exists>es'. publicNode (snd (build e s)) = Some (Dir es')
            \<and> filter (\<lambda>en. \<not> htmlName (fst en)) es' = filter (\<lambda>en. \<not> htmlName (fst en)) es"
      by (rule fin)
    show "\<forall>n. \<not> htmlName n \<longrightarrow>
             readFile (pathResolve publicDirPath n) (snd (build e s)) = readFile (pathResolve publicDirPath n) s"
      using rd by blast
    show "\<forall>r s2. removeFiles e publicDirPath ''.html'' s = (Inr r, s2) \<longrightarrow>
             getFiles publicDirPath ''.html'' s2 = Inr []"
      using rs by blast
    show "distinct (map fst es) \<longrightarrow>
             build e s = build e (s\<lparr>publicNode := Some (Dir (filter (\<lambda>en. \<not> htmlFile en) es))\<rparr>)
           \<and> (\<forall>n. htmlName n \<and> n \<noteq> ''index.html''
                 \<and> (\<forall>posts p. fst (getPosts e postsDirPath s) = Inr posts \<and> p \<in> set posts \<and> isPublic p
                       \<longrightarrow> n \<noteq> postFileName e p)
                 \<longrightarrow> (\<forall>c. readFile (pathResolve publicDirPath n) (snd (build e s)) \<noteq> Inr c))"
      using ar old by blast
    show "\<forall>created. fst (build e s) = Inr created \<longrightarrow>
             (\<forall>p\<in>set created. \<exists>c. readFile (pathResolve publicDirPath (postFileName e p)) (snd (build e s)) = Inr c)
           \<and> (\<exists>page. nunjucksRender e (getTemplatePath e ''index'') [(''posts'', JArr (map JObj created))] = Inr page
                \<and> readFile (pathResolve publicDirPath ''index.html'') (snd (build e s)) = Inr page)"
      using wrn by blast
  qed
qed

theorem build_keeps_other_files_witness:
  "(\<exists>es'. publicNode (snd (build exampleEnv exampleDisk)) = Some (Dir es')
      \<and> filter (\<lambda>en. \<not> htmlName (fst en)) es' = filter (\<lambda>en. \<not> htmlName (fst en)) examplePublic)
   \<and> readFile (pathResolve publicDirPath ''style.css'') (snd (build exampleEnv exampleDisk))
       = Inr ''body {}''
   \<and> getFiles publicDirPath ''.html'' (snd (removeFiles exampleEnv publicDirPath ''.html'' exampleDisk)) = Inr []
   \<and> build exampleEnv exampleDisk
       = build exampleEnv (exampleDisk\<lparr>publicNode := Some (Dir (filter (\<lambda>en. \<not> htmlFile en) examplePublic))\<rparr>)
   \<and> readFile (pathResolve publicDirPath ''old.html'') exampleDisk = Inr ''<p>old</p>''
   \<and> (\<forall>c. readFile (pathResolve publicDirPath ''old.html'') (snd (build exampleEnv exampleDisk)) \<noteq> Inr c)
   \<and> (\<exists>c. readFile (pathResolve publicDirPath (postFileName exampleEnv helloPost))
              (snd (build exampleEnv exampleDisk)) = Inr c)
   \<and> (\<exists>page. nunjucksRender exampleEnv (getTemplatePath exampleEnv ''index'')
                [(''posts'', JArr (map JObj [secondPost, helloPost]))] = Inr page
          \<and> readFile (pathResolve publicDirPath ''index.html'') (snd (build exampleEnv exampleDisk)) = Inr page)"
proof -
  have h: "publicNode exampleDisk = Some (Dir examplePublic)"
    by (simp add: exampleDisk_def)
  note t = build_keeps_other_files[OF h, of exampleEnv]
  have n: "\<not> htmlName ''style.css''" by code_simp
  have r0: "readFile (pathResolve publicDirPath ''style.css'') exampleDisk = Inr ''body {}''"
    by code_simp
  have f: "fst (removeFiles exampleEnv publicDirPath ''.html'' exampleDisk) = Inr [()]"
    by code_simp
  have rm: "removeFiles exampleEnv publicDirPath ''.html'' exampleDisk
      = (Inr [()], snd (removeFiles exampleEnv publicDirPath ''.html'' exampleDisk))"
    using f by (simp add: prod_eq_iff)
  have dn: "distinct (map fst examplePublic)" by code_simp
  have gp: "fst (getPosts exampleEnv postsDirPath exampleDisk) = Inr [helloPost, secondPost, draftPost]"
    by code_simp
  have o1: "htmlName ''old.html''" by code_simp
  have o2: "''old.html'' \<noteq> postFileName exampleEnv helloPost"
    "''old.html'' \<noteq> postFileName exampleEnv secondPost"
    "''old.html'' \<noteq> postFileName exampleEnv draftPost"
    by code_simp+
  have o: "htmlName ''old.html'' \<and> ''old.html'' \<noteq> ''index.html''
         \<and> (\<forall>posts p. fst (getPosts exampleEnv postsDirPath exampleDisk) = Inr posts \<and> p \<in> set posts \<and> isPublic p
               \<longrightarrow> ''old.html'' \<noteq> postFileName exampleEnv p)"
    using o1 o2 unfolding gp by auto
  have b0: "fst (build exampleEnv exampleDisk) = Inr [secondPost, helloPost]" by code_simp
  have hp: "helloPost \<in> set [secondPost, helloPost]" by simp
  have a: "\<exists>es'. publicNode (snd (build exampleEnv exampleDisk)) = Some (Dir es')
      \<and> filter (\<lambda>en. \<not> htmlName (fst en)) es' = filter (\<lambda>en. \<not> htmlName (fst en)) examplePublic"
    by (rule t[THEN conjunct1])
  have b: "readFile (pathResolve publicDirPath ''style.css'') (snd (build exampleEnv exampleDisk))
       = Inr ''body {}''"
    using t[THEN conjunct2, THEN conjunct1, rule_format, OF n] r0 by simp
  have c: "getFiles publicDirPath ''.html'' (snd (removeFiles exampleEnv publicDirPath ''.html'' exampleDisk)) = Inr []"
    by (rule t[THEN conjunct2, THEN conjunct2, THEN conjunct1, rule_format, OF rm])
  note t4 = t[THEN conjunct2, THEN conjunct2, THEN conjunct2, THEN conjunct1, rule_format, OF dn]
  have d: "build exampleEnv exampleDisk
       = build exampleEnv (exampleDisk\<lparr>publicNode := Some (Dir (filter (\<lambda>en. \<not> htmlFile en) examplePublic))\<rparr>)"
    by (rule t4[THEN conjunct1])
  have e0: "readFile (pathResolve publicDirPath ''old.html'') exampleDisk = Inr ''<p>old</p>''"
    by code_simp
  have e1: "\<forall>c. readFile (pathResolve publicDirPath ''old.html'') (snd (build exampleEnv exampleDisk)) \<noteq> Inr c"
    using t4[THEN conjunct2, rule_format, OF o] by blast
  note t5 = t[THEN conjunct2, THEN conjunct2, THEN conjunct2, THEN conjunct2, rule_format, OF b0]
  have g: "\<exists>c. readFile (pathResolve publicDirPath (postFileName exampleEnv helloPost))
              (snd (build exampleEnv exampleDisk)) = Inr c"
    by (rule t5[THEN conjunct1, rule_format, OF hp])
  have i: "\<exists>page. nunjucksRender exampleEnv (getTemplatePath exampleEnv ''index'')
                [(''posts'', JArr (map JObj [secondPost, helloPost]))] = Inr page
          \<and> readFile (pathResolve publicDirPath ''index.html'') (snd (build exampleEnv exampleDisk)) = Inr page"
    by (rule t5[THEN conjunct2])
  show ?thesis using a b c d e0 e1 g i by (intro conjI)
qed

section \<open>Running the generator twice\<close>

text \<open>
  The order in which the operations complete is no argument of the collaborators, so
  the functions of the generator that start no \<^verbatim>\<open>Promise.all\<close> do not depend on it.
\<close>

lemma newDate_orders:
  "newDate (e\<lparr>unlinkOrder := u, readOrder := r, writeOrder := w\<rparr>) v = newDate e v"
  by (cases v) simp_all

lemma pathFormat_orders:
  "pathFormat (e\<lparr>unlinkOrder := u, readOrder := r, writeOrder := w\<rparr>) nm ext = pathFormat e nm ext"
  by (cases nm) (simp_all add: pathFormat_def)

lemma postFileName_orders:
  "postFileName (e\<lparr>unlinkOrder := u, readOrder := r, writeOrder := w\<rparr>) = postFileName e"
  by (simp add: fun_eq_iff postFileName_def pathFormat_orders)

lemma getTemplatePath_orders:
  "getTemplatePath (e\<lparr>unlinkOrder := u, readOrder := r, writeOrder := w\<rparr>) = getTemplatePath e"
  by (simp add: fun_eq_iff getTemplatePath_def pathFormat_orders)

lemma parsePost_orders:
  "parsePost (e\<lparr>unlinkOrder := u, readOrder := r, writeOrder := w\<rparr>) = parsePost e"
  by (simp add: fun_eq_iff parsePost_def)

lemma createPostFile_orders:
  "createPostFile (e\<lparr>unlinkOrder := u, readOrder := r, writeOrder := w\<rparr>) = createPostFile e"
  by (simp add: fun_eq_iff createPostFile_def markdownToHTML_def getTemplatePath_orders
        postFileName_orders cong: sum.case_cong)

lemma createIndexFile_orders:
  "createIndexFile (e\<lparr>unlinkOrder := u, readOrder := r, writeOrder := w\<rparr>) = createIndexFile e"
  by (simp add: fun_eq_iff createIndexFile_def getTemplatePath_orders cong: sum.case_cong)

lemma newestFirst_orders:
  "newestFirst (e\<lparr>unlinkOrder := u, readOrder := r, writeOrder := w\<rparr>) = newestFirst e"
  by (simp add: fun_eq_iff newestFirst_def newDate_orders)

lemma getPosts_Inr_iff:
  "fst (getPosts e d s) = Inr posts \<longleftrightarrow>
     (\<exists>ns ds. getFiles d ''.md'' s = Inr ns
        \<and> mapThrowing (\<lambda>n. readFile (pathResolve d n) s) ns = Inr ds
        \<and> mapThrowing (\<lambda>(n, dat). parsePost e n dat) (zip ns ds) = Inr posts)"
proof (cases "getFiles d ''.md'' s")
  case (Inl err)
  then show ?thesis by (simp add: getPosts_def)
next
  case (Inr ns)
  obtain r s1 where p: "promiseAll (readOrder e) (\<lambda>fileName s'. (readFile (pathResolve d fileName) s', s')) ns s = (r, s1)"
    by (cases "promiseAll (readOrder e) (\<lambda>fileName s'. (readFile (pathResolve d fileName) s', s')) ns s")
  note pp = promiseAll_pure[OF p]
  show ?thesis
  proof (cases r)
    case (Inl err)
    then have "\<And>ds. mapThrowing (\<lambda>n. readFile (pathResolve d n) s) ns \<noteq> Inr ds" using pp by auto
    then show ?thesis using Inr p Inl by (simp add: getPosts_def)
  next
    case (Inr ds)
    then have "mapThrowing (\<lambda>n. readFile (pathResolve d n) s) ns = Inr ds" using pp by auto
    then show ?thesis using \<open>getFiles d ''.md'' s = Inr ns\<close> p Inr by (simp add: getPosts_def)
  qed
qed

lemma getPosts_orders:
  "fst (getPosts (e\<lparr>unlinkOrder := u, readOrder := r, writeOrder := w\<rparr>) d s) = Inr posts
     \<longleftrightarrow> fst (getPosts e d s) = Inr posts"
  unfolding getPosts_Inr_iff parsePost_orders ..

text \<open>
  A write to the output directory depends on the entry of its file name only, and
  changes this entry only.
\<close>

lemma writeFile_local:
  assumes "publicNode s = Some (Dir es)" and "publicNode t = Some (Dir et)"
    and "map_of es n = map_of et n"
  shows "fst (writeFile (publicDirPath, n) d s) = fst (writeFile (publicDirPath, n) d t)
       \<and> (\<exists>es1 et1. publicNode (snd (writeFile (publicDirPath, n) d s)) = Some (Dir es1)
            \<and> publicNode (snd (writeFile (publicDirPath, n) d t)) = Some (Dir et1)
            \<and> map_of es1 n = map_of et1 n
            \<and> (\<forall>m. m \<noteq> n \<longrightarrow> map_of es1 m = map_of es m \<and> map_of et1 m = map_of et m))"
proof (cases "\<exists>sub. map_of es n = Some (Dir sub)")
  case True
  then show ?thesis using assms by (auto simp: writeFile_def showPath_def)
next
  case False
  then have a: "writeFile (publicDirPath, n) d s = (Inr (), s\<lparr>publicNode := Some (Dir (AList.update n (File d) es))\<rparr>)"
    using assms(1) by (auto simp: writeFile_def split: option.splits node.splits)
  have b: "writeFile (publicDirPath, n) d t = (Inr (), t\<lparr>publicNode := Some (Dir (AList.update n (File d) et))\<rparr>)"
    using False assms(2,3) by (auto simp: writeFile_def split: option.splits node.splits)
  show ?thesis unfolding a b by (simp add: update_conv')
qed

lemma createPostFile_eq:
  "createPostFile e p s =
     (case markdownToHTML e (getProp p ''body'') of
        Inl err \<Rightarrow> (Inl err, s)
      | Inr html \<Rightarrow>
          (case nunjucksRender e (getTemplatePath e ''post'') (setProp ''body'' (JStr html) p) of
             Inl err \<Rightarrow> (Inl err, s)
           | Inr fileData \<Rightarrow>
               ((case fst (writeFile (publicDirPath, postFileName e p) fileData s) of
                   Inl err \<Rightarrow> Inl err | Inr u \<Rightarrow> Inr p),
                snd (writeFile (publicDirPath, postFileName e p) fileData s))))"
  by (simp add: createPostFile_def pathResolve_def Let_def split: sum.splits prod.splits)

lemma createPostFile_local:
  assumes "publicNode s = Some (Dir es)" and "publicNode t = Some (Dir et)"
    and "map_of es (postFileName e p) = map_of et (postFileName e p)"
  shows "fst (createPostFile e p s) = fst (createPostFile e p t)
       \<and> (\<exists>es1 et1. publicNode (snd (createPostFile e p s)) = Some (Dir es1)
            \<and> publicNode (snd (createPostFile e p t)) = Some (Dir et1)
            \<and> map_of es1 (postFileName e p) = map_of et1 (postFileName e p)
            \<and> (\<forall>m. m \<noteq> postFileName e p \<longrightarrow> map_of es1 m = map_of es m \<and> map_of et1 m = map_of et m))"
proof (cases "markdownToHTML e (getProp p ''body'')")
  case (Inl err)
  then show ?thesis using assms by (simp add: createPostFile_eq)
next
  case (Inr html)
  note md = this
  show ?thesis
  proof (cases "nunjucksRender e (getTemplatePath e ''post'') (setProp ''body'' (JStr html) p)")
    case (Inl err)
    then show ?thesis using assms md by (simp add: createPostFile_eq)
  next
    case (Inr fileData)
    from writeFile_local[OF assms, of fileData] show ?thesis
      by (simp add: createPostFile_eq md Inr)
  qed
qed

lemma createPostFile_posts: "postsNode (snd (createPostFile e p s)) = postsNode s"
  by (rule createPostFile_writes[of "\<lambda>t. postsNode t = postsNode s"]) (simp_all add: writeFile_posts)

lemma createIndexFile_posts: "postsNode (snd (createIndexFile e ps s)) = postsNode s"
  by (rule createIndexFile_writes[of "\<lambda>t. postsNode t = postsNode s"]) (simp_all add: writeFile_posts)

lemma settleInOrder_Cons_snd:
  "snd (settleInOrder f (x # xs) s) = snd (settleInOrder f xs (snd (f x s)))"
  by (simp split: prod.splits)

lemma settleInOrder_Cons_fst:
  "(\<exists>vs. fst (settleInOrder f (x # xs) s) = Inr vs)
     \<longleftrightarrow> (\<exists>v. fst (f x s) = Inr v) \<and> (\<exists>vs. fst (settleInOrder f xs (snd (f x s))) = Inr vs)"
  by (auto split: prod.splits sum.splits)

text \<open>
  When the posts have different file names, the output directory after their writes
  has for every post the entry that the write of this post alone would leave, and every
  other entry as before; and the writes succeed when each of them alone would.
\<close>

lemma createPosts_char:
  assumes "publicNode s = Some (Dir es)" and "distinct (map (postFileName e) ps)"
  shows "\<exists>es'. publicNode (snd (settleInOrder (createPostFile e) ps s)) = Some (Dir es')
       \<and> (\<forall>p\<in>set ps. map_of es' (postFileName e p)
              = map_of (entries (publicNode (snd (createPostFile e p s)))) (postFileName e p))
       \<and> (\<forall>n. n \<notin> postFileName e ` set ps \<longrightarrow> map_of es' n = map_of es n)
       \<and> ((\<exists>vs. fst (settleInOrder (createPostFile e) ps s) = Inr vs)
            \<longleftrightarrow> (\<forall>p\<in>set ps. \<exists>v. fst (createPostFile e p s) = Inr v))"
  using assms
proof (induction ps arbitrary: s es)
  case Nil
  then show ?case by simp
next
  case (Cons a ps)
  let ?s1 = "snd (createPostFile e a s)"
  from createPostFile_local[OF Cons.prems(1) Cons.prems(1) refl, of e a]
  obtain es1 where es1: "publicNode ?s1 = Some (Dir es1)"
    and o1: "\<forall>m. m \<noteq> postFileName e a \<longrightarrow> map_of es1 m = map_of es m" by auto
  have d: "distinct (map (postFileName e) ps)" using Cons.prems(2) by simp
  have na: "postFileName e a \<notin> postFileName e ` set ps" using Cons.prems(2) by auto
  from Cons.IH[OF es1 d] obtain es' where
    e': "publicNode (snd (settleInOrder (createPostFile e) ps ?s1)) = Some (Dir es')"
    and each: "\<forall>p\<in>set ps. map_of es' (postFileName e p)
              = map_of (entries (publicNode (snd (createPostFile e p ?s1)))) (postFileName e p)"
    and oth: "\<forall>n. n \<notin> postFileName e ` set ps \<longrightarrow> map_of es' n = map_of es1 n"
    and suc: "(\<exists>vs. fst (settleInOrder (createPostFile e) ps ?s1) = Inr vs)
            \<longleftrightarrow> (\<forall>p\<in>set ps. \<exists>v. fst (createPostFile e p ?s1) = Inr v)"
    by blast
  have loc: "fst (createPostFile e p ?s1) = fst (createPostFile e p s)
       \<and> map_of (entries (publicNode (snd (createPostFile e p ?s1)))) (postFileName e p)
           = map_of (entries (publicNode (snd (createPostFile e p s)))) (postFileName e p)"
    if "p \<in> set ps" for p
  proof -
    have "postFileName e p \<noteq> postFileName e a" using that na by (metis imageI)
    then have "map_of es1 (postFileName e p) = map_of es (postFileName e p)" using o1 by simp
    from createPostFile_local[OF es1 Cons.prems(1) this] show ?thesis
      by (auto simp: entries_def)
  qed
  have c1: "publicNode (snd (settleInOrder (createPostFile e) (a # ps) s)) = Some (Dir es')"
    unfolding settleInOrder_Cons_snd by (rule e')
  have c2: "map_of es' (postFileName e p)
              = map_of (entries (publicNode (snd (createPostFile e p s)))) (postFileName e p)"
    if "p \<in> set (a # ps)" for p
  proof (cases "p \<in> set ps")
    case True
    then show ?thesis using each loc by simp
  next
    case False
    then have "p = a" using that by simp
    then show ?thesis using oth na es1 by (simp add: entries_def)
  qed
  have c3: "map_of es' n = map_of es n" if "n \<notin> postFileName e ` set (a # ps)" for n
    using that oth o1 by auto
  have c4: "(\<exists>vs. fst (settleInOrder (createPostFile e) (a # ps) s) = Inr vs)
            \<longleftrightarrow> (\<forall>p\<in>set (a # ps). \<exists>v. fst (createPostFile e p s) = Inr v)"
    unfolding settleInOrder_Cons_fst suc using loc by auto
  show ?case using c1 c2 c3 c4 by blast
qed

lemma promiseAll_fst_Inr:
  "(\<exists>vs. fst (promiseAll pref f xs s) = Inr vs)
     \<longleftrightarrow> (\<exists>vs. fst (settleInOrder f (scheduled pref xs) s) = Inr vs)"
  by (auto simp: promiseAll_def split: prod.splits sum.splits)

lemma createPosts_orders:
  assumes "publicNode s = Some (Dir es)" and "distinct (map (postFileName e) ps)"
  shows "\<exists>es1 es2. publicNode (snd (promiseAll w1 (createPostFile e) ps s)) = Some (Dir es1)
       \<and> publicNode (snd (promiseAll w2 (createPostFile e) ps s)) = Some (Dir es2)
       \<and> map_of es1 = map_of es2
       \<and> ((\<exists>vs. fst (promiseAll w1 (createPostFile e) ps s) = Inr vs)
            \<longleftrightarrow> (\<exists>vs. fst (promiseAll w2 (createPostFile e) ps s) = Inr vs))"
proof -
  have d1: "distinct (map (postFileName e) (scheduled w1 ps))"
    by (rule scheduled_distinct_map[OF assms(2)])
  have d2: "distinct (map (postFileName e) (scheduled w2 ps))"
    by (rule scheduled_distinct_map[OF assms(2)])
  from createPosts_char[OF assms(1) d1] obtain es1 where
    e1: "publicNode (snd (settleInOrder (createPostFile e) (scheduled w1 ps) s)) = Some (Dir es1)"
    and each1: "\<forall>p\<in>set ps. map_of es1 (postFileName e p)
              = map_of (entries (publicNode (snd (createPostFile e p s)))) (postFileName e p)"
    and oth1: "\<forall>n. n \<notin> postFileName e ` set ps \<longrightarrow> map_of es1 n = map_of es n"
    and suc1: "(\<exists>vs. fst (settleInOrder (createPostFile e) (scheduled w1 ps) s) = Inr vs)
            \<longleftrightarrow> (\<forall>p\<in>set ps. \<exists>v. fst (createPostFile e p s) = Inr v)"
    unfolding scheduled_set by blast
  from createPosts_char[OF assms(1) d2] obtain es2 where
    e2: "publicNode (snd (settleInOrder (createPostFile e) (scheduled w2 ps) s)) = Some (Dir es2)"
    and each2: "\<forall>p\<in>set ps. map_of es2 (postFileName e p)
              = map_of (entries (publicNode (snd (createPostFile e p s)))) (postFileName e p)"
    and oth2: "\<forall>n. n \<notin> postFileName e ` set ps \<longrightarrow> map_of es2 n = map_of es n"
    and suc2: "(\<exists>vs. fst (settleInOrder (createPostFile e) (scheduled w2 ps) s) = Inr vs)
            \<longleftrightarrow> (\<forall>p\<in>set ps. \<exists>v. fst (createPostFile e p s) = Inr v)"
    unfolding scheduled_set by blast
  have "map_of es1 n = map_of es2 n" for n
  proof (cases "n \<in> postFileName e ` set ps")
    case True
    then obtain p where "p \<in> set ps" "n = postFileName e p" by auto
    then show ?thesis using each1 each2 by simp
  next
    case False
    then show ?thesis using oth1 oth2 by simp
  qed
  then have "map_of es1 = map_of es2" by (rule ext)
  then show ?thesis
    unfolding promiseAll_state promiseAll_fst_Inr using e1 e2 suc1 suc2 by blast
qed

lemma createIndexFile_local:
  assumes "publicNode s = Some (Dir es)" and "publicNode t = Some (Dir et)"
    and "map_of es = map_of et"
  shows "fst (createIndexFile e ps s) = fst (createIndexFile e ps t)
       \<and> map_of (entries (publicNode (snd (createIndexFile e ps s))))
           = map_of (entries (publicNode (snd (createIndexFile e ps t))))"
proof (cases "nunjucksRender e (getTemplatePath e ''index'') [(''posts'', JArr (map JObj ps))]")
  case (Inl err)
  then show ?thesis using assms by (simp add: createIndexFile_def entries_def)
next
  case (Inr fileData)
  have m: "map_of es ''index.html'' = map_of et ''index.html''" using assms(3) by simp
  from writeFile_local[OF assms(1,2) m, of fileData] obtain es1 et1 where
    f: "fst (writeFile (publicDirPath, ''index.html'') fileData s) = fst (writeFile (publicDirPath, ''index.html'') fileData t)"
    and e1: "publicNode (snd (writeFile (publicDirPath, ''index.html'') fileData s)) = Some (Dir es1)"
    and e2: "publicNode (snd (writeFile (publicDirPath, ''index.html'') fileData t)) = Some (Dir et1)"
    and i: "map_of es1 ''index.html'' = map_of et1 ''index.html''"
    and o: "\<forall>m. m \<noteq> ''index.html'' \<longrightarrow> map_of es1 m = map_of es m \<and> map_of et1 m = map_of et m"
    by blast
  have "map_of es1 n = map_of et1 n" for n
    using i o assms(3) by (cases "n = ''index.html''") auto
  then have "map_of es1 = map_of et1" by (rule ext)
  then show ?thesis using f e1 e2 Inr
    by (simp add: createIndexFile_def pathResolve_def entries_def)
qed

lemma build_dir:
  assumes "publicNode s = Some (Dir es)" and "distinct (map fst es)"
  shows "build e s =
     (case fst (getPosts e postsDirPath s) of
        Inl err \<Rightarrow> (Inl err, s\<lparr>publicNode := Some (Dir (filter (\<lambda>en. \<not> htmlFile en) es))\<rparr>)
      | Inr posts \<Rightarrow>
     (case promiseAll (writeOrder e) (createPostFile e) (filter isPublic posts)
             (s\<lparr>publicNode := Some (Dir (filter (\<lambda>en. \<not> htmlFile en) es))\<rparr>) of
        (Inl err, s4) \<Rightarrow> (Inl err, s4)
      | (Inr createdPosts, s4) \<Rightarrow>
     (case createIndexFile e (arraySort (newestFirst e) createdPosts) s4 of
        (Inl err, s5) \<Rightarrow> (Inl err, s5)
      | (Inr u, s5) \<Rightarrow> (Inr (arraySort (newestFirst e) createdPosts), s5))))"
proof -
  let ?s2 = "s\<lparr>publicNode := Some (Dir (filter (\<lambda>en. \<not> htmlFile en) es))\<rparr>"
  have "fst (getPosts e postsDirPath ?s2) = fst (getPosts e postsDirPath s)"
    by (rule getPosts_posts) simp
  then have gp: "getPosts e postsDirPath ?s2 = (fst (getPosts e postsDirPath s), ?s2)"
    using getPosts_state[of e postsDirPath ?s2] by (simp add: prod_eq_iff)
  have ms: "mkdir publicDirPath s = (Inr (), s)" using assms(1) by (simp add: mkdir_def)
  show ?thesis
    by (simp add: build_def ms removeFiles_exact[OF assms] gp Let_def split: sum.splits prod.splits)
qed

text \<open>
  In a directory, with public posts of different file names, the files of the output
  directory after a run, and whether the run succeeds and what it returns then, do not
  depend on the order in which the operations complete.
\<close>

lemma build_orders:
  assumes "publicNode s = Some (Dir es)" and "distinct (map fst es)"
    and "\<forall>posts. fst (getPosts e postsDirPath s) = Inr posts
           \<longrightarrow> distinct (map (postFileName e) (filter isPublic posts))"
  shows "map_of (entries (publicNode (snd (build (e\<lparr>unlinkOrder := u, readOrder := r, writeOrder := w\<rparr>) s))))
           = map_of (entries (publicNode (snd (build e s))))
       \<and> (\<forall>created. fst (build (e\<lparr>unlinkOrder := u, readOrder := r, writeOrder := w\<rparr>) s) = Inr created
             \<longleftrightarrow> fst (build e s) = Inr created)"
proof -
  let ?e' = "e\<lparr>unlinkOrder := u, readOrder := r, writeOrder := w\<rparr>"
  let ?es2 = "filter (\<lambda>en. \<not> htmlFile en) es"
  let ?s2 = "s\<lparr>publicNode := Some (Dir ?es2)\<rparr>"
  note b = build_dir[OF assms(1,2), of e]
  note b' = build_dir[OF assms(1,2), of ?e', unfolded createPostFile_orders createIndexFile_orders newestFirst_orders]
  have wo: "writeOrder ?e' = w" by simp
  show ?thesis
  proof (cases "fst (getPosts e postsDirPath s)")
    case (Inl err)
    have "\<And>posts. fst (getPosts ?e' postsDirPath s) \<noteq> Inr posts"
      using Inl getPosts_orders[where e=e and u=u and r=r and w=w and d=postsDirPath and s=s] by simp
    then obtain err' where "fst (getPosts ?e' postsDirPath s) = Inl err'"
      by (cases "fst (getPosts ?e' postsDirPath s)") auto
    then show ?thesis using Inl b b' by simp
  next
    case (Inr posts)
    then have g': "fst (getPosts ?e' postsDirPath s) = Inr posts"
      using getPosts_orders[where e=e and u=u and r=r and w=w and d=postsDirPath and s=s] by simp
    let ?pub = "filter isPublic posts"
    let ?A = "promiseAll (writeOrder e) (createPostFile e) ?pub ?s2"
    let ?B = "promiseAll w (createPostFile e) ?pub ?s2"
    have d: "distinct (map (postFileName e) ?pub)" using assms(3) Inr by simp
    have p2: "publicNode ?s2 = Some (Dir ?es2)" by simp
    from createPosts_orders[OF p2 d, of "writeOrder e" w] obtain es1 es2 where
      e1: "publicNode (snd ?A) = Some (Dir es1)" and e2: "publicNode (snd ?B) = Some (Dir es2)"
      and m: "map_of es1 = map_of es2"
      and suc: "(\<exists>vs. fst ?A = Inr vs) \<longleftrightarrow> (\<exists>vs. fst ?B = Inr vs)"
      by blast
    have bA: "build e s = (case ?A of (Inl err, s4) \<Rightarrow> (Inl err, s4)
        | (Inr createdPosts, s4) \<Rightarrow>
          (case createIndexFile e (arraySort (newestFirst e) createdPosts) s4 of
             (Inl err, s5) \<Rightarrow> (Inl err, s5)
           | (Inr u, s5) \<Rightarrow> (Inr (arraySort (newestFirst e) createdPosts), s5)))"
      using b Inr by simp
    have bB: "build ?e' s = (case ?B of (Inl err, s4) \<Rightarrow> (Inl err, s4)
        | (Inr createdPosts, s4) \<Rightarrow>
          (case createIndexFile e (arraySort (newestFirst e) createdPosts) s4 of
             (Inl err, s5) \<Rightarrow> (Inl err, s5)
           | (Inr u, s5) \<Rightarrow> (Inr (arraySort (newestFirst e) createdPosts), s5)))"
      using b' g' wo by simp
    show ?thesis
    proof (cases "fst ?A")
      case (Inl err)
      then obtain err' where fB: "fst ?B = Inl err'" using suc by (cases "fst ?B") auto
      have A: "?A = (Inl err, snd ?A)" using Inl by (simp add: prod_eq_iff)
      have B: "?B = (Inl err', snd ?B)" using fB by (simp add: prod_eq_iff)
      have "build e s = (Inl err, snd ?A)" unfolding bA by (subst A) simp
      moreover have "build ?e' s = (Inl err', snd ?B)" unfolding bB by (subst B) simp
      ultimately show ?thesis using e1 e2 m by (simp add: entries_def)
    next
      case (Inr created)
      then obtain created' where fB: "fst ?B = Inr created'" using suc by (cases "fst ?B") auto
      have A0: "?A = (Inr created, snd ?A)" using Inr by (simp add: prod_eq_iff)
      have B0: "?B = (Inr created', snd ?B)" using fB by (simp add: prod_eq_iff)
      have c: "created = map (\<lambda>p. p) ?pub"
        by (rule promiseAll_Inr_all[OF A0]) (rule createPostFile_returns)
      have c': "created' = map (\<lambda>p. p) ?pub"
        by (rule promiseAll_Inr_all[OF B0]) (rule createPostFile_returns)
      let ?sorted = "arraySort (newestFirst e) ?pub"
      let ?IA = "createIndexFile e ?sorted (snd ?A)"
      let ?IB = "createIndexFile e ?sorted (snd ?B)"
      have A: "?A = (Inr ?pub, snd ?A)" using A0 c by simp
      have B: "?B = (Inr ?pub, snd ?B)" using B0 c' by simp
      have bA': "build e s = (case ?IA of (Inl err, s5) \<Rightarrow> (Inl err, s5) | (Inr u, s5) \<Rightarrow> (Inr ?sorted, s5))"
        unfolding bA by (subst A) simp
      have bB': "build ?e' s = (case ?IB of (Inl err, s5) \<Rightarrow> (Inl err, s5) | (Inr u, s5) \<Rightarrow> (Inr ?sorted, s5))"
        unfolding bB by (subst B) simp
      from createIndexFile_local[OF e1 e2 m, of e ?sorted]
      have f: "fst ?IA = fst ?IB"
        and mm: "map_of (entries (publicNode (snd ?IA))) = map_of (entries (publicNode (snd ?IB)))"
        by simp_all
      show ?thesis
      proof (cases "fst ?IA")
        case (Inl err)
        have IA: "?IA = (Inl err, snd ?IA)" using Inl by (simp add: prod_eq_iff)
        have IB: "?IB = (Inl err, snd ?IB)" using Inl f by (simp add: prod_eq_iff)
        have "build e s = (Inl err, snd ?IA)" unfolding bA' by (subst IA) simp
        moreover have "build ?e' s = (Inl err, snd ?IB)" unfolding bB' by (subst IB) simp
        ultimately show ?thesis using mm by simp
      next
        case (Inr v)
        have IA: "?IA = (Inr v, snd ?IA)" using Inr by (simp add: prod_eq_iff)
        have IB: "?IB = (Inr v, snd ?IB)" using Inr f by (simp add: prod_eq_iff)
        have "build e s = (Inr ?sorted, snd ?IA)" unfolding bA' by (subst IA) simp
        moreover have "build ?e' s = (Inr ?sorted, snd ?IB)" unfolding bB' by (subst IB) simp
        ultimately show ?thesis using mm by simp
      qed
    qed
  qed
qed

text \<open>
  The state a run leaves has the source directory of the run and, in the output
  directory, entries of different names of which those that are not HTML files are the
  ones from before the run: a run on it, in whatever order its operations complete, is
  the run on the first state.
\<close>

lemma build_again:
  assumes "publicNode t = Some (Dir es)" and "distinct (map fst es)"
  shows "build e' (snd (build e t)) = build e' t"
proof -
  let ?P = "\<lambda>u. postsNode u = postsNode t \<and> (\<exists>es'. publicNode u = Some (Dir es') \<and> distinct (map fst es')
              \<and> filter (\<lambda>en. \<not> htmlFile en) es' = filter (\<lambda>en. \<not> htmlFile en) es)"
  have p0: "?P t" using assms by simp
  have mk: "?P (snd (mkdir publicDirPath u))" if "?P u" for u
    using that by (auto simp: mkdir_def)
  have ul: "?P (snd (unlink (publicDirPath, n) u))" if pu: "?P u" and hn: "htmlName n" for u n
  proof -
    obtain r u' where un: "unlink (publicDirPath, n) u = (r, u')" by (cases "unlink (publicDirPath, n) u")
    from pu obtain es' where e': "publicNode u = Some (Dir es')" "distinct (map fst es')"
      "filter (\<lambda>en. \<not> htmlFile en) es' = filter (\<lambda>en. \<not> htmlFile en) es" by blast
    from unlink_cases[OF un] show ?thesis
    proof
      assume "u' = u \<and> (\<exists>err. r = Inl err)"
      then show ?thesis using un pu by simp
    next
      assume "\<exists>es0 c. nodeAt u (fst (publicDirPath, n)) = Some (Dir es0) \<and> map_of es0 (snd (publicDirPath, n)) = Some (File c)
            \<and> u' = setNode (fst (publicDirPath, n)) (Some (Dir (AList.delete (snd (publicDirPath, n)) es0))) u \<and> r = Inr ()"
      then obtain c where c: "map_of es' n = Some (File c)"
        and u': "u' = setNode publicDirPath (Some (Dir (AList.delete n es'))) u"
        using e'(1) by auto
      have "filter (\<lambda>en. \<not> htmlFile en) (AList.delete n es') = filter (\<lambda>en. \<not> htmlFile en) es'"
        by (rule filter_delete_file[where Q=htmlFile, OF e'(2) c htmlFile_File[OF hn]])
      then show ?thesis using un u' pu e' by (simp add: distinct_delete)
    qed
  qed
  have wr: "?P (snd (writeFile (publicDirPath, n) d u))" if pu: "?P u" and hn: "htmlName n" for u n d
  proof -
    obtain r u' where w: "writeFile (publicDirPath, n) d u = (r, u')" by (cases "writeFile (publicDirPath, n) d u")
    from pu obtain es' where e': "publicNode u = Some (Dir es')" "distinct (map fst es')"
      "filter (\<lambda>en. \<not> htmlFile en) es' = filter (\<lambda>en. \<not> htmlFile en) es" by blast
    from writeFile_cases[OF w] show ?thesis
    proof
      assume "u' = u \<and> (\<exists>err. r = Inl err)"
      then show ?thesis using w pu by simp
    next
      assume "\<exists>es0. nodeAt u (fst (publicDirPath, n)) = Some (Dir es0) \<and> (\<forall>sub. map_of es0 (snd (publicDirPath, n)) \<noteq> Some (Dir sub))
            \<and> u' = setNode (fst (publicDirPath, n)) (Some (Dir (AList.update (snd (publicDirPath, n)) (File d) es0))) u \<and> r = Inr ()"
      then have nd: "\<forall>sub. map_of es' n \<noteq> Some (Dir sub)"
        and u': "u' = setNode publicDirPath (Some (Dir (AList.update n (File d) es'))) u"
        using e'(1) by auto
      have q: "htmlFile (n, w)" if "map_of es' n = Some w" for w
        using that nd hn by (cases w) (auto simp: htmlFile_def)
      have "filter (\<lambda>en. \<not> htmlFile en) (AList.update n (File d) es') = filter (\<lambda>en. \<not> htmlFile en) es'"
        by (rule filter_update_file[where Q=htmlFile, OF htmlFile_File[OF hn] q])
      then show ?thesis using w u' pu e' by (simp add: distinct_update)
    qed
  qed
  have "?P (snd (build e t))"
    by (rule build_invariant[of ?P, OF p0 mk ul wr])
  then obtain es' where "postsNode (snd (build e t)) = postsNode t"
    "publicNode (snd (build e t)) = Some (Dir es')" "distinct (map fst es')"
    "filter (\<lambda>en. \<not> htmlFile en) es' = filter (\<lambda>en. \<not> htmlFile en) es" by blast
  then show ?thesis using build_same_reset[of "snd (build e t)" es' t es e'] assms by simp
qed

text \<open>
  Claim C6 as stated does not hold: two posts of the source directory have the file name
  \<open>a.MD.html\<close>, and which of the two pages the file holds after a run depends on the
  write that completes last, so that two runs on the same input, and a second run on the
  output of the first, leave different files.
\<close>

theorem build_idempotent_counterexample:
  "readFile (pathResolve publicDirPath ''a.MD.html'') (snd (build exampleEnv clashDisk))
     = Inr ''<p>Again</p>''
   \<and> readFile (pathResolve publicDirPath ''a.MD.html'')
       (snd (build (exampleEnv\<lparr>writeOrder := [2]\<rparr>) clashDisk))
     = Inr ''<p>World</p>''
   \<and> readFile (pathResolve publicDirPath ''a.MD.html'')
       (snd (build (exampleEnv\<lparr>writeOrder := [2]\<rparr>) (snd (build exampleEnv clashDisk))))
     = Inr ''<p>World</p>''"
  by code_simp

text \<open>
  Claim C6, amended. When the public posts have different output file names, a run of
  \<^verbatim>\<open>build\<close> on the same source files with the same templates gives the same output
  files, whatever the order in which the operations of each run complete: a second run
  on the state the first run left is the run on the first state, the output directory
  (whose entries have different names, as in every directory) has the same files with
  the same contents after every run, a run succeeds when the other does and returns the
  same posts, and the source directory is as before.
\<close>

theorem build_idempotent:
  assumes "distinct (map fst (entries (publicNode s)))"
    and "\<forall>posts. fst (getPosts e postsDirPath s) = Inr posts
           \<longrightarrow> distinct (map (postFileName e) (filter isPublic posts))"
    and "e' = e\<lparr>unlinkOrder := u, readOrder := r, writeOrder := w\<rparr>"
  shows "build e' (snd (build e s)) = build e' s
       \<and> map_of (entries (publicNode (snd (build e' s)))) = map_of (entries (publicNode (snd (build e s))))
       \<and> (\<forall>created. fst (build e' s) = Inr created \<longleftrightarrow> fst (build e s) = Inr created)
       \<and> postsNode (snd (build e' s)) = postsNode s"
proof -
  have dir: "build e' (snd (build e t)) = build e' t
       \<and> map_of (entries (publicNode (snd (build e' t)))) = map_of (entries (publicNode (snd (build e t))))
       \<and> (\<forall>created. fst (build e' t) = Inr created \<longleftrightarrow> fst (build e t) = Inr created)"
    if pt: "publicNode t = Some (Dir es)" and dt: "distinct (map fst es)"
      and ps: "postsNode t = postsNode s" for t es
  proof -
    have "fst (getPosts e postsDirPath t) = fst (getPosts e postsDirPath s)"
      by (rule getPosts_posts[OF ps])
    then have h: "\<forall>posts. fst (getPosts e postsDirPath t) = Inr posts
           \<longrightarrow> distinct (map (postFileName e) (filter isPublic posts))"
      using assms(2) by simp
    show ?thesis
      using build_again[OF pt dt, of e' e] build_orders[OF pt dt h, where u=u and r=r and w=w]
      unfolding assms(3) by blast
  qed
  have pn: "postsNode (snd (build e' s)) = postsNode s" by (rule build_posts_kept)
  show ?thesis
  proof (cases "publicNode s")
    case None
    let ?s0 = "s\<lparr>publicNode := Some (Dir [])\<rparr>"
    have b: "build x s = build x ?s0" for x
      using None by (simp add: build_def mkdir_def)
    have "build e' (snd (build e ?s0)) = build e' ?s0
       \<and> map_of (entries (publicNode (snd (build e' ?s0)))) = map_of (entries (publicNode (snd (build e ?s0))))
       \<and> (\<forall>created. fst (build e' ?s0) = Inr created \<longleftrightarrow> fst (build e ?s0) = Inr created)"
      by (rule dir[of ?s0 "[]"]) simp_all
    then show ?thesis using pn unfolding b[of e] b[of e'] by simp
  next
    case (Some nd)
    show ?thesis
    proof (cases nd)
      case (File c)
      then have "build x s = (Inl (EEXIST (showDir publicDirPath)), s)" for x
        using Some by (simp add: build_def mkdir_def)
      then show ?thesis by simp
    next
      case (Dir es)
      have "build e' (snd (build e s)) = build e' s
       \<and> map_of (entries (publicNode (snd (build e' s)))) = map_of (entries (publicNode (snd (build e s))))
       \<and> (\<forall>created. fst (build e' s) = Inr created \<longleftrightarrow> fst (build e s) = Inr created)"
        by (rule dir[of s es]) (use Some Dir assms(1) in \<open>simp_all add: entries_def\<close>)
      then show ?thesis using pn by simp
    qed
  qed
qed

theorem build_idempotent_witness:
  "build (exampleEnv\<lparr>unlinkOrder := [], readOrder := [2], writeOrder := [1]\<rparr>)
       (snd (build exampleEnv exampleDisk))
     = build (exampleEnv\<lparr>unlinkOrder := [], readOrder := [2], writeOrder := [1]\<rparr>) exampleDisk
   \<and> map_of (entries (publicNode (snd (build (exampleEnv\<lparr>unlinkOrder := [], readOrder := [2], writeOrder := [1]\<rparr>) exampleDisk))))
       = map_of (entries (publicNode (snd (build exampleEnv exampleDisk))))
   \<and> fst (build (exampleEnv\<lparr>unlinkOrder := [], readOrder := [2], writeOrder := [1]\<rparr>) exampleDisk)
       = Inr [secondPost, helloPost]
   \<and> postsNode (snd (build (exampleEnv\<lparr>unlinkOrder := [], readOrder := [2], writeOrder := [1]\<rparr>) exampleDisk))
       = postsNode exampleDisk"
proof -
  have h1: "distinct (map fst (entries (publicNode exampleDisk)))" by code_simp
  have gp: "fst (getPosts exampleEnv postsDirPath exampleDisk) = Inr [helloPost, secondPost, draftPost]"
    by code_simp
  have d: "distinct (map (postFileName exampleEnv) (filter isPublic [helloPost, secondPost, draftPost]))"
    by code_simp
  have h2: "\<forall>posts. fst (getPosts exampleEnv postsDirPath exampleDisk) = Inr posts
           \<longrightarrow> distinct (map (postFileName exampleEnv) (filter isPublic posts))"
    unfolding gp using d by simp
  have f: "fst (build exampleEnv exampleDisk) = Inr [secondPost, helloPost]" by code_simp
  note t = build_idempotent[OF h1 h2 refl, where u="[]" and r="[2]" and w="[1]"]
  have a: "fst (build (exampleEnv\<lparr>unlinkOrder := [], readOrder := [2], writeOrder := [1]\<rparr>) exampleDisk)
       = Inr [secondPost, helloPost]"
    using t[THEN conjunct2, THEN conjunct2, THEN conjunct1] f by simp
  show ?thesis using t a by simp
qed

section \<open>Malformed metadata\<close>

lemma mapThrowing_zip:
  assumes "mapThrowing f xs = Inr ys" and "x \<in> set xs" and "f x = Inr y"
  shows "(x, y) \<in> set (zip xs ys)"
  using assms
proof (induction xs arbitrary: ys)
  case Nil
  then show ?case by simp
next
  case (Cons a xs)
  from Cons.prems(1) obtain b bs where b: "f a = Inr b" and bs: "mapThrowing f xs = Inr bs"
    and ys: "ys = b # bs"
    by (auto split: sum.splits)
  show ?case
  proof (cases "x = a")
    case True
    then show ?thesis using b Cons.prems(3) ys by simp
  next
    case False
    then have "x \<in> set xs" using Cons.prems(2) by simp
    then show ?thesis using Cons.IH[OF bs _ Cons.prems(3)] ys by simp
  qed
qed

lemma getPosts_malformed:
  assumes "nodeAt t d = Some (Dir ps)" and "map_of ps n = Some (File fileData)"
    and "endsWith (toLowerCase n) ''.md''" and "frontMatter e fileData = Inl err"
  shows "\<exists>err'. getPosts e d t = (Inl err', t)"
proof -
  let ?ns = "map fst (filter (\<lambda>en. isFileNode (snd en) \<and> (''.md'' \<noteq> [] \<longrightarrow> endsWith (toLowerCase (fst en)) ''.md'')) ps)"
  have g: "getFiles d ''.md'' t = Inr ?ns" by (rule getFiles_Dir[OF assms(1)])
  have mem: "(n, File fileData) \<in> set ps" using assms(2) by (rule map_of_SomeD)
  have n: "n \<in> set ?ns" using mem assms(3) by force
  have rd: "readFile (pathResolve d n) t = Inr fileData"
    using assms(1,2) by (simp add: readFile_def pathResolve_def)
  have pp: "parsePost e n fileData = Inl err" using assms(4) by (simp add: parsePost_def)
  have "fst (getPosts e d t) \<noteq> Inr posts" for posts
  proof
    assume "fst (getPosts e d t) = Inr posts"
    then obtain ds where
      r: "mapThrowing (\<lambda>n. readFile (pathResolve d n) t) ?ns = Inr ds"
      and p: "mapThrowing (\<lambda>(n, dat). parsePost e n dat) (zip ?ns ds) = Inr posts"
      unfolding getPosts_Inr_iff g by auto
    have z: "(n, fileData) \<in> set (zip ?ns ds)" by (rule mapThrowing_zip[OF r n rd])
    from mapThrowing_Inr_all[OF p z] pp show False by simp
  qed
  then obtain err' where "fst (getPosts e d t) = Inl err'"
    by (cases "fst (getPosts e d t)") auto
  then have "getPosts e d t = (Inl err', t)"
    using getPosts_state[of e d t] by (simp add: prod_eq_iff)
  then show ?thesis by blast
qed

lemma build_stops_at_getPosts:
  assumes "\<And>t. postsNode t = postsNode s \<Longrightarrow> \<exists>err. getPosts e postsDirPath t = (Inl err, t)"
    and "P s" and "\<And>t. P t \<Longrightarrow> postsNode t = postsNode s"
    and mk: "\<And>t. P t \<Longrightarrow> P (snd (mkdir publicDirPath t))"
    and ul: "\<And>t n. P t \<Longrightarrow> htmlName n \<Longrightarrow> P (snd (unlink (publicDirPath, n) t))"
  shows "(\<exists>err. fst (build e s) = Inl err) \<and> P (snd (build e s))"
proof -
  obtain r1 s1 where m: "mkdir publicDirPath s = (r1, s1)" by (cases "mkdir publicDirPath s")
  have p1: "P s1" using mk[OF assms(2)] m by simp
  obtain r2 s2 where rm: "removeFiles e publicDirPath ''.html'' s1 = (r2, s2)"
    by (cases "removeFiles e publicDirPath ''.html'' s1")
  have p2: "P s2" using removeFiles_invariant[where P=P and e=e, OF p1 ul] rm by simp
  obtain err where gp: "getPosts e postsDirPath s2 = (Inl err, s2)"
    using assms(1)[OF assms(3)[OF p2]] by blast
  show ?thesis
  proof (cases r1)
    case (Inl a)
    then show ?thesis using m p1 by (simp add: build_def)
  next
    case (Inr u1)
    show ?thesis
    proof (cases r2)
      case (Inl a)
      then show ?thesis using m Inr rm p2 by (simp add: build_def)
    next
      case (Inr u2)
      then show ?thesis using m \<open>r1 = Inr u1\<close> rm gp p2 by (simp add: build_def)
    qed
  qed
qed

lemma set_delete_subset: "set (AList.delete k es) \<subseteq> set es"
  by (induction es) auto

text \<open>
  Claim C4 as stated does not hold: the run that fails on a malformed metadata block has
  already reset the output directory, so the HTML file of an earlier run is gone.
\<close>

theorem malformed_metadata_counterexample:
  "fst (build exampleEnv brokenDisk)
     = Inl (YAMLException ''unexpected end of the stream within a flow collection'')
   \<and> readFile (pathResolve publicDirPath ''old.html'') brokenDisk = Inr ''<p>old</p>''
   \<and> readFile (pathResolve publicDirPath ''old.html'') (snd (build exampleEnv brokenDisk))
       = Inl (ENOENT ''public/old.html'')"
  by code_simp

text \<open>
  Claim C4, amended. When a Markdown file of the source directory has a malformed
  metadata block, \<^verbatim>\<open>build\<close> fails, the source directory is as before, and the run has
  written no output file: every entry of the output directory after the run was an
  entry of it before the run, with the same contents.
\<close>

theorem malformed_metadata_aborts:
  assumes "postsNode s = Some (Dir ps)" and "map_of ps n = Some (File fileData)"
    and "endsWith (toLowerCase n) ''.md''" and "frontMatter e fileData = Inl err"
  shows "(\<exists>err'. fst (build e s) = Inl err')
       \<and> postsNode (snd (build e s)) = postsNode s
       \<and> set (entries (publicNode (snd (build e s)))) \<subseteq> set (entries (publicNode s))"
proof -
  let ?P = "\<lambda>t. postsNode t = postsNode s \<and> set (entries (publicNode t)) \<subseteq> set (entries (publicNode s))"
  have gp: "\<exists>err'. getPosts e postsDirPath t = (Inl err', t)" if "postsNode t = postsNode s" for t
    by (rule getPosts_malformed[OF _ assms(2,3,4)]) (simp add: that assms(1))
  have mk: "?P (snd (mkdir publicDirPath t))" if "?P t" for t
    using that by (auto simp: mkdir_def entries_def split: option.splits node.splits)
  have ul: "?P (snd (unlink (publicDirPath, k) t))" if "?P t" "htmlName k" for t k
  proof -
    obtain r t' where u: "unlink (publicDirPath, k) t = (r, t')" by (cases "unlink (publicDirPath, k) t")
    from unlink_cases[OF u] show ?thesis
    proof
      assume "t' = t \<and> (\<exists>err. r = Inl err)"
      then show ?thesis using u that(1) by simp
    next
      assume "\<exists>es c. nodeAt t (fst (publicDirPath, k)) = Some (Dir es) \<and> map_of es (snd (publicDirPath, k)) = Some (File c)
              \<and> t' = setNode (fst (publicDirPath, k)) (Some (Dir (AList.delete (snd (publicDirPath, k)) es))) t \<and> r = Inr ()"
      then obtain es where es: "publicNode t = Some (Dir es)"
        and t': "t' = setNode publicDirPath (Some (Dir (AList.delete k es))) t" by auto
      have "set (entries (publicNode t')) \<subseteq> set (entries (publicNode t))"
        using es t' set_delete_subset[of k es] by (simp add: entries_def)
      then show ?thesis using u that(1) t' by auto
    qed
  qed
  have "(\<exists>err. fst (build e s) = Inl err) \<and> ?P (snd (build e s))"
    by (rule build_stops_at_getPosts[of s e ?P, OF gp _ _ mk ul]) simp_all
  then show ?thesis by simp
qed

theorem malformed_metadata_aborts_witness:
  "(\<exists>err'. fst (build exampleEnv brokenDisk) = Inl err')
   \<and> postsNode (snd (build exampleEnv brokenDisk)) = postsNode brokenDisk
   \<and> set (entries (publicNode (snd (build exampleEnv brokenDisk))))
       \<subseteq> set (entries (publicNode brokenDisk))"
proof -
  have h1: "postsNode brokenDisk = Some (Dir brokenPosts)" by (simp add: brokenDisk_def)
  have h2: "map_of brokenPosts ''broken.md'' = Some (File brokenMd)" by code_simp
  have h3: "endsWith (toLowerCase ''broken.md'') ''.md''" by code_simp
  have h4: "frontMatter exampleEnv brokenMd
      = Inl (YAMLException ''unexpected end of the stream within a flow collection'')"
    by code_simp
  show ?thesis by (rule malformed_metadata_aborts[OF h1 h2 h3 h4])
qed

section \<open>The files of the posts\<close>

lemma update_append_new: "map_of es k = None \<Longrightarrow> AList.update k v es = es @ [(k, v)]"
  by (induction es) (auto split: if_splits)

lemma writeFile_new_html:
  assumes "writeFile (publicDirPath, n) d s = (Inr u, s')" and "publicNode s = Some (Dir es)"
    and "htmlName n" and "n \<notin> set (map fst (filter htmlFile es))"
  shows "\<exists>es'. publicNode s' = Some (Dir es')
           \<and> map fst (filter htmlFile es') = map fst (filter htmlFile es) @ [n]"
proof -
  from writeFile_cases[OF assms(1)] assms(2)
  have nd: "\<forall>sub. map_of es n \<noteq> Some (Dir sub)"
    and s': "s' = setNode publicDirPath (Some (Dir (AList.update n (File d) es))) s"
    by auto
  have "map_of es n = None"
  proof (cases "map_of es n")
    case None
    then show ?thesis .
  next
    case (Some w)
    then obtain c where w: "w = File c" using nd by (cases w) auto
    have "(n, File c) \<in> set es" using Some w by (simp add: map_of_SomeD)
    then have "n \<in> set (map fst (filter htmlFile es))"
      using assms(3) by (force simp: htmlFile_def)
    then show ?thesis using assms(4) by simp
  qed
  then have "AList.update n (File d) es = es @ [(n, File d)]" by (rule update_append_new)
  then show ?thesis using s' assms(3) by (simp add: htmlFile_def)
qed

lemma createPosts_files:
  assumes "settleInOrder (createPostFile e) ps s = (Inr created, s4)"
    and "publicNode s = Some (Dir es)"
    and "distinct (map (postFileName e) ps)"
    and "set (map fst (filter htmlFile es)) \<inter> set (map (postFileName e) ps) = {}"
  shows "\<exists>es4. publicNode s4 = Some (Dir es4)
           \<and> map fst (filter htmlFile es4) = map fst (filter htmlFile es) @ map (postFileName e) ps"
  using assms
proof (induction ps arbitrary: s es created)
  case Nil
  then show ?case by simp
next
  case (Cons p ps)
  obtain r s1 where f: "createPostFile e p s = (r, s1)" by (cases "createPostFile e p s")
  obtain rs s2 where pa: "settleInOrder (createPostFile e) ps s1 = (rs, s2)"
    by (cases "settleInOrder (createPostFile e) ps s1")
  from Cons.prems(1) f pa obtain v vs where r: "r = Inr v" and rs: "rs = Inr vs" and s2: "s2 = s4"
    by (auto split: sum.splits)
  from createPostFile_cases[OF f] r obtain fileData where
    w: "writeFile (publicDirPath, postFileName e p) fileData s = (Inr (), s1)" by auto
  have nin: "postFileName e p \<notin> set (map fst (filter htmlFile es))"
    using Cons.prems(4) by auto
  from writeFile_new_html[OF w Cons.prems(2) htmlName_postFileName nin]
  obtain es1 where es1: "publicNode s1 = Some (Dir es1)"
    and n1: "map fst (filter htmlFile es1) = map fst (filter htmlFile es) @ [postFileName e p]"
    by blast
  have d: "distinct (map (postFileName e) ps)" using Cons.prems(3) by simp
  have dj: "set (map fst (filter htmlFile es1)) \<inter> set (map (postFileName e) ps) = {}"
    unfolding n1 using Cons.prems(3,4) by auto
  from Cons.IH[OF pa[unfolded rs s2] es1 d dj] n1 show ?case by auto
qed

lemma readFile_html_listed:
  assumes "publicNode s = Some (Dir es)" and "readFile (pathResolve publicDirPath n) s = Inr c"
    and "htmlName n"
  shows "n \<in> set (map fst (filter htmlFile es))"
proof -
  have "map_of es n = Some (File c)"
    using assms(1,2)
    by (auto simp: readFile_def pathResolve_def split: option.splits node.splits)
  then have "(n, File c) \<in> set es" by (rule map_of_SomeD)
  then show ?thesis using assms(3) by (force simp: htmlFile_def)
qed

text \<open>
  Claim C1 as stated does not hold: of three public posts, two have the slug \<open>a.MD\<close> and
  are written to one file, and the page of the post with the slug \<open>index\<close> is overwritten
  by the index page, so the output directory has two HTML files, the index among them.
\<close>

theorem build_post_files_counterexample:
  "map (\<lambda>p. (getProp p ''slug'', isPublic p)) (projr (fst (getPosts exampleEnv postsDirPath clashDisk)))
     = [(JStr ''index'', True), (JStr ''a.MD'', True), (JStr ''a.MD'', True)]
   \<and> length (projr (fst (build exampleEnv clashDisk))) = 3
   \<and> getFiles publicDirPath ''.html'' (snd (build exampleEnv clashDisk))
       = Inr [''index.html'', ''a.MD.html'']
   \<and> readFile (pathResolve publicDirPath ''index.html'') (snd (build exampleEnv clashDisk))
       = Inr ''a.MD; a.MD; index; ''"
  by code_simp

text \<open>
  Claim C1, amended. After a run of \<^verbatim>\<open>build\<close> that succeeds, when the output file names
  of the public posts (the posts whose \<open>public\<close> attribute is truthy) are different from
  each other and from \<open>index.html\<close>, the HTML files of the output directory are the files
  of the public posts, one for each, and the index; they are listed in the order in
  which the writes completed, which is the order of the posts when the writes complete
  in this order. The posts returned are the public posts, and a post that is not
  public, with a file name of its own, has no file.
\<close>

theorem build_post_files:
  assumes "build e s = (Inr created, s')"
    and "getPosts e postsDirPath s = (Inr posts, s)"
    and "distinct (map (postFileName e) (filter isPublic posts))"
    and "''index.html'' \<notin> set (map (postFileName e) (filter isPublic posts))"
  shows "getFiles publicDirPath ''.html'' s'
           = Inr (map (postFileName e) (scheduled (writeOrder e) (filter isPublic posts)) @ [''index.html''])
       \<and> mset (map (postFileName e) (scheduled (writeOrder e) (filter isPublic posts)))
           = mset (map (postFileName e) (filter isPublic posts))
       \<and> (writeOrder e = [] \<longrightarrow> getFiles publicDirPath ''.html'' s'
           = Inr (map (postFileName e) (filter isPublic posts) @ [''index.html'']))
       \<and> mset created = mset (filter isPublic posts)
       \<and> (\<forall>p\<in>set posts. \<not> isPublic p
             \<and> postFileName e p \<notin> set (map (postFileName e) (filter isPublic posts))
             \<and> postFileName e p \<noteq> ''index.html''
           \<longrightarrow> (\<forall>c. readFile (pathResolve publicDirPath (postFileName e p)) s' \<noteq> Inr c))"
proof -
  obtain s1 s2 posts' s4 u1 u2 vs where
    m: "mkdir publicDirPath s = (Inr u1, s1)" and
    rm: "removeFiles e publicDirPath ''.html'' s1 = (Inr u2, s2)" and
    gp: "getPosts e postsDirPath s2 = (Inr posts', s2)" and
    st: "settleInOrder (createPostFile e) (scheduled (writeOrder e) (filter isPublic posts')) s2 = (Inr vs, s4)" and
    cr: "created = arraySort (newestFirst e) (filter isPublic posts')" and
    ci: "createIndexFile e created s4 = (Inr (), s')"
    by (rule build_success[OF assms(1)])
  have "postsNode s2 = postsNode s" using reset_posts[of e s] m rm by simp
  from getPosts_posts[OF this, of e] gp assms(2) have ps: "posts' = posts" by simp
  let ?pub = "filter isPublic posts"
  let ?sch = "scheduled (writeOrder e) ?pub"
  have ms0: "mset (map (postFileName e) ?sch) = mset (map (postFileName e) ?pub)"
    by (simp add: scheduled_mset)
  have sset: "set (map (postFileName e) ?sch) = set (map (postFileName e) ?pub)"
    by (simp add: scheduled_set)
  have dsch: "distinct (map (postFileName e) ?sch)"
    by (rule scheduled_distinct_map[OF assms(3)])
  have g2: "getFiles publicDirPath ''.html'' s2 = Inr []" by (rule removeFiles_resets[OF rm])
  obtain es2 where es2: "publicNode s2 = Some (Dir es2)"
    using g2 unfolding getFiles_def readdir_def by (auto split: option.splits node.splits)
  have h2: "map fst (filter htmlFile es2) = []"
    using g2 getFiles_html[of s2 publicDirPath es2] es2 by simp
  have dj: "set (map fst (filter htmlFile es2)) \<inter> set (map (postFileName e) ?sch) = {}"
    unfolding h2 by simp
  from createPosts_files[OF st[unfolded ps] es2 dsch dj]
  obtain es4 where es4: "publicNode s4 = Some (Dir es4)"
    and n4: "map fst (filter htmlFile es4) = map (postFileName e) ?sch"
    unfolding h2 by auto
  from createIndexFile_cases[OF ci] obtain fileData where
    w: "writeFile (publicDirPath, ''index.html'') fileData s4 = (Inr (), s')" by auto
  have ni: "''index.html'' \<notin> set (map fst (filter htmlFile es4))"
    unfolding n4 sset by (rule assms(4))
  from writeFile_new_html[OF w es4 htmlName_index ni]
  obtain es' where es': "publicNode s' = Some (Dir es')"
    and n': "map fst (filter htmlFile es') = map (postFileName e) ?sch @ [''index.html'']"
    unfolding n4 by blast
  have g: "getFiles publicDirPath ''.html'' s' = Inr (map (postFileName e) ?sch @ [''index.html''])"
    using getFiles_html[of s' publicDirPath es'] es' n' by simp
  have ms: "mset created = mset ?pub" by (simp add: cr ps mset_arraySort)
  have np: "readFile (pathResolve publicDirPath (postFileName e p)) s' \<noteq> Inr c"
    if "postFileName e p \<notin> set (map (postFileName e) ?pub)" "postFileName e p \<noteq> ''index.html''" for p c
  proof
    assume "readFile (pathResolve publicDirPath (postFileName e p)) s' = Inr c"
    from readFile_html_listed[OF es' this htmlName_postFileName]
    have "postFileName e p \<in> set (map (postFileName e) ?sch @ [''index.html''])"
      unfolding n' .
    then show False using that sset by auto
  qed
  show ?thesis
  proof (intro conjI ballI impI allI)
    show "getFiles publicDirPath ''.html'' s' = Inr (map (postFileName e) ?sch @ [''index.html''])"
      by (rule g)
    show "mset (map (postFileName e) ?sch) = mset (map (postFileName e) ?pub)" by (rule ms0)
    show "mset created = mset ?pub" by (rule ms)
  next
    assume "writeOrder e = []"
    then show "getFiles publicDirPath ''.html'' s' = Inr (map (postFileName e) ?pub @ [''index.html''])"
      using g by (simp add: scheduled_Nil)
  next
    fix p c
    assume "\<not> isPublic p
             \<and> postFileName e p \<notin> set (map (postFileName e) ?pub)
             \<and> postFileName e p \<noteq> ''index.html''"
    then show "readFile (pathResolve publicDirPath (postFileName e p)) s' \<noteq> Inr c"
      using np[of p c] by blast
  qed
qed

theorem build_post_files_witness:
  "getFiles publicDirPath ''.html'' (snd (build exampleEnv exampleDisk))
     = Inr [''hello-world.html'', ''POST.MD.html'', ''index.html'']
   \<and> mset [secondPost, helloPost] = mset (filter isPublic [helloPost, secondPost, draftPost])
   \<and> (\<forall>c. readFile (pathResolve publicDirPath (postFileName exampleEnv draftPost))
              (snd (build exampleEnv exampleDisk)) \<noteq> Inr c)"
proof -
  have f: "fst (build exampleEnv exampleDisk) = Inr [secondPost, helloPost]" by code_simp
  have h1: "build exampleEnv exampleDisk = (Inr [secondPost, helloPost], snd (build exampleEnv exampleDisk))"
    using f by (simp add: prod_eq_iff)
  have h2: "getPosts exampleEnv postsDirPath exampleDisk
      = (Inr [helloPost, secondPost, draftPost], exampleDisk)"
    by code_simp
  have h3: "distinct (map (postFileName exampleEnv) (filter isPublic [helloPost, secondPost, draftPost]))"
    by code_simp
  have h4: "''index.html'' \<notin> set (map (postFileName exampleEnv) (filter isPublic [helloPost, secondPost, draftPost]))"
    by code_simp
  note t = build_post_files[OF h1 h2 h3 h4]
  have wo: "writeOrder exampleEnv = []" by code_simp
  have k: "map (postFileName exampleEnv) (filter isPublic [helloPost, secondPost, draftPost]) @ [''index.html'']
      = [''hello-world.html'', ''POST.MD.html'', ''index.html'']"
    by code_simp
  have m: "draftPost \<in> set [helloPost, secondPost, draftPost]" by simp
  have d: "\<not> isPublic draftPost
      \<and> postFileName exampleEnv draftPost
          \<notin> set (map (postFileName exampleEnv) (filter isPublic [helloPost, secondPost, draftPost]))
      \<and> postFileName exampleEnv draftPost \<noteq> ''index.html''"
    by code_simp
  have a: "getFiles publicDirPath ''.html'' (snd (build exampleEnv exampleDisk))
     = Inr [''hello-world.html'', ''POST.MD.html'', ''index.html'']"
    using t[THEN conjunct2, THEN conjunct2, THEN conjunct1, rule_format, OF wo] unfolding k .
  have b: "mset [secondPost, helloPost] = mset (filter isPublic [helloPost, secondPost, draftPost])"
    by (rule t[THEN conjunct2, THEN conjunct2, THEN conjunct2, THEN conjunct1])
  have c: "\<forall>c. readFile (pathResolve publicDirPath (postFileName exampleEnv draftPost))
              (snd (build exampleEnv exampleDisk)) \<noteq> Inr c"
    using t[THEN conjunct2, THEN conjunct2, THEN conjunct2, THEN conjunct2, rule_format, OF m d] by blast
  show ?thesis using a b c by (intro conjI)
qed

section \<open>The index and the entry point\<close>

text \<open>
  Claim C3 as stated does not hold: a public post whose declared date is not a date
  makes the comparator return NaN, and the posts are passed to the index in an order
  that is monotonic in neither direction (here the posts of 2019, of no date, of 2020
  and of 2018, in this order).
\<close>

theorem index_sorted_by_date_counterexample:
  "map (\<lambda>p. newDate exampleEnv (getProp p ''date'')) (projr (fst (build exampleEnv datesDisk)))
     = [Some 1554076800000, None, Some 1585699200000, Some 1522540800000]"
  by code_simp

text \<open>
  Claim C3, amended. When the declared date of every public post is a valid date, the
  list that \<^verbatim>\<open>build\<close> passes to \<^verbatim>\<open>createIndexFile\<close> is the list of the public posts sorted
  newest first: it has the same posts, and of two posts of the list the earlier one is
  never the older. With the comparator of the other copy of the program the same posts
  are sorted oldest first.
\<close>

theorem index_sorted_by_date:
  assumes "build e s = (Inr created, s')"
    and "getPosts e postsDirPath s = (Inr posts, s)"
    and "\<forall>p\<in>set (filter isPublic posts). \<exists>t. newDate e (getProp p ''date'') = Some t"
  shows "created = arraySort (newestFirst e) (filter isPublic posts)
       \<and> (\<exists>t. createIndexFile e created t = (Inr (), s'))
       \<and> sorted_wrt (\<lambda>a b. \<exists>ta tb. newDate e (getProp a ''date'') = Some ta
              \<and> newDate e (getProp b ''date'') = Some tb \<and> tb \<le> ta) created
       \<and> mset created = mset (filter isPublic posts)
       \<and> sorted_wrt (\<lambda>a b. \<exists>ta tb. newDate e (getProp a ''date'') = Some ta
              \<and> newDate e (getProp b ''date'') = Some tb \<and> ta \<le> tb)
            (arraySort (oldestFirst e) (filter isPublic posts))"
proof -
  obtain s1 s2 posts' s4 u1 u2 vs where
    cr: "created = arraySort (newestFirst e) (filter isPublic posts')" and
    ci: "createIndexFile e created s4 = (Inr (), s')"
    by (rule build_success[OF assms(1)])
  from build_success_posts[OF assms(1)] assms(2)
  have c: "created = arraySort (newestFirst e) (filter isPublic posts)" by auto
  show ?thesis
  proof (intro conjI)
    show "created = arraySort (newestFirst e) (filter isPublic posts)" by (rule c)
    show "\<exists>t. createIndexFile e created t = (Inr (), s')" using ci by blast
    show "sorted_wrt (\<lambda>a b. \<exists>ta tb. newDate e (getProp a ''date'') = Some ta
              \<and> newDate e (getProp b ''date'') = Some tb \<and> tb \<le> ta) created"
      unfolding c by (rule arraySort_newestFirst[OF assms(3)])
    show "mset created = mset (filter isPublic posts)" unfolding c by (rule mset_arraySort)
    show "sorted_wrt (\<lambda>a b. \<exists>ta tb. newDate e (getProp a ''date'') = Some ta
              \<and> newDate e (getProp b ''date'') = Some tb \<and> ta \<le> tb)
            (arraySort (oldestFirst e) (filter isPublic posts))"
      by (rule arraySort_oldestFirst[OF assms(3)])
  qed
qed

theorem index_sorted_by_date_witness:
  "[secondPost, helloPost] = arraySort (newestFirst exampleEnv) (filter isPublic [helloPost, secondPost, draftPost])
   \<and> (\<exists>t. createIndexFile exampleEnv [secondPost, helloPost] t = (Inr (), snd (build exampleEnv exampleDisk)))
   \<and> sorted_wrt (\<lambda>a b. \<exists>ta tb. newDate exampleEnv (getProp a ''date'') = Some ta
          \<and> newDate exampleEnv (getProp b ''date'') = Some tb \<and> tb \<le> ta) [secondPost, helloPost]
   \<and> mset [secondPost, helloPost] = mset (filter isPublic [helloPost, secondPost, draftPost])
   \<and> sorted_wrt (\<lambda>a b. \<exists>ta tb. newDate exampleEnv (getProp a ''date'') = Some ta
          \<and> newDate exampleEnv (getProp b ''date'') = Some tb \<and> ta \<le> tb)
        (arraySort (oldestFirst exampleEnv) (filter isPublic [helloPost, secondPost, draftPost]))"
proof -
  have f: "fst (build exampleEnv exampleDisk) = Inr [secondPost, helloPost]" by code_simp
  have h1: "build exampleEnv exampleDisk = (Inr [secondPost, helloPost], snd (build exampleEnv exampleDisk))"
    using f by (simp add: prod_eq_iff)
  have h2: "getPosts exampleEnv postsDirPath exampleDisk
      = (Inr [helloPost, secondPost, draftPost], exampleDisk)"
    by code_simp
  have p: "filter isPublic [helloPost, secondPost, draftPost] = [helloPost, secondPost]"
    by code_simp
  have d1: "newDate exampleEnv (getProp helloPost ''date'') = Some 1554076800000" by code_simp
  have d2: "newDate exampleEnv (getProp secondPost ''date'') = Some 1585699200000" by code_simp
  have h3: "\<forall>p\<in>set (filter isPublic [helloPost, secondPost, draftPost]).
      \<exists>t. newDate exampleEnv (getProp p ''date'') = Some t"
    unfolding p using d1 d2 by simp
  show ?thesis by (rule index_sorted_by_date[OF h1 h2 h3])
qed

lemma build_keeps_subdir:
  assumes "publicNode s = Some (Dir es)" and "map_of es n = Some (Dir sub)"
  shows "readFile (pathResolve publicDirPath n) (snd (build e s)) = Inl (EISDIR (showPath (publicDirPath, n)))"
proof -
  let ?P = "\<lambda>t. \<exists>es'. publicNode t = Some (Dir es') \<and> map_of es' n = Some (Dir sub)"
  have p0: "?P s" using assms by simp
  have mk: "?P (snd (mkdir publicDirPath t))" if "?P t" for t
    using that by (auto simp: mkdir_def)
  have ul: "?P (snd (unlink (publicDirPath, k) t))" if "?P t" for t k
  proof -
    obtain r t' where u: "unlink (publicDirPath, k) t = (r, t')" by (cases "unlink (publicDirPath, k) t")
    from that obtain es' where e': "publicNode t = Some (Dir es')" "map_of es' n = Some (Dir sub)"
      by blast
    from unlink_cases[OF u] show ?thesis
    proof
      assume "t' = t \<and> (\<exists>err. r = Inl err)"
      then show ?thesis using u that by simp
    next
      assume "\<exists>es0 c. nodeAt t (fst (publicDirPath, k)) = Some (Dir es0) \<and> map_of es0 (snd (publicDirPath, k)) = Some (File c)
              \<and> t' = setNode (fst (publicDirPath, k)) (Some (Dir (AList.delete (snd (publicDirPath, k)) es0))) t \<and> r = Inr ()"
      then obtain c where c: "map_of es' k = Some (File c)"
        and t': "t' = t\<lparr>publicNode := Some (Dir (AList.delete k es'))\<rparr>" using e'(1) by auto
      have "k \<noteq> n" using c e'(2) by auto
      then have "map_of (AList.delete k es') n = Some (Dir sub)"
        using e'(2) by (simp add: delete_conv')
      then show ?thesis using u t' by simp
    qed
  qed
  have wr: "?P (snd (writeFile (publicDirPath, k) d t))" if "?P t" for t k d
  proof -
    obtain r t' where w: "writeFile (publicDirPath, k) d t = (r, t')" by (cases "writeFile (publicDirPath, k) d t")
    from that obtain es' where e': "publicNode t = Some (Dir es')" "map_of es' n = Some (Dir sub)"
      by blast
    from writeFile_cases[OF w] show ?thesis
    proof
      assume "t' = t \<and> (\<exists>err. r = Inl err)"
      then show ?thesis using w that by simp
    next
      assume "\<exists>es0. nodeAt t (fst (publicDirPath, k)) = Some (Dir es0) \<and> (\<forall>sub. map_of es0 (snd (publicDirPath, k)) \<noteq> Some (Dir sub))
              \<and> t' = setNode (fst (publicDirPath, k)) (Some (Dir (AList.update (snd (publicDirPath, k)) (File d) es0))) t \<and> r = Inr ()"
      then have nd: "\<forall>sub. map_of es' k \<noteq> Some (Dir sub)"
        and t': "t' = t\<lparr>publicNode := Some (Dir (AList.update k (File d) es'))\<rparr>" using e'(1) by auto
      have "k \<noteq> n" using nd e'(2) by auto
      then have "map_of (AList.update k (File d) es') n = Some (Dir sub)"
        using e'(2) by (simp add: update_conv')
      then show ?thesis using w t' by simp
    qed
  qed
  have "?P (snd (build e s))"
    by (rule build_invariant[of ?P, OF p0 mk ul wr])
  then show ?thesis by (auto simp: readFile_def pathResolve_def)
qed

text \<open>
  Claim C5 as stated does not hold: a failure is printed to standard error, but the
  rejection is handled there and the program sets no exit code, so the process ends with
  status 0 after a failed run too.
\<close>

theorem main_reports_outcome_counterexample:
  "fst (build exampleEnv noPostsDisk) = Inl (ENOENT ''posts'')
   \<and> fst (main exampleEnv noPostsDisk) = \<lparr>stdout = [], stderr = [ENOENT ''posts''], exitCode = 0\<rparr>"
  by code_simp

text \<open>
  Claim C5, amended. A failure of \<^verbatim>\<open>build\<close> reaches the entry point and is printed to
  standard error, with nothing on standard output; a success prints the number of posts
  created to standard output; the exit status is 0 in both cases. No failure is
  swallowed on the way. When \<^verbatim>\<open>build\<close> succeeds, the output directory was not a regular
  file, every \<^verbatim>\<open>unlink\<close> of the reset succeeded, the source directory was read, the
  number printed is the number of public posts, the Markdown and the template of every
  public post were rendered and its file is in the output directory, the index was
  rendered and is in the output directory with this page, and no Markdown file of the
  source directory has a malformed metadata block. And when the output directory is a
  regular file, when the file of a public post or of the index cannot be written
  because a subdirectory has its name, or when the posts cannot be read or parsed, an
  error is printed and nothing else.
\<close>

theorem main_reports_outcome:
  "(\<forall>err s1. build e s = (Inl err, s1) \<longrightarrow>
      main e s = (\<lparr>stdout = [], stderr = [err], exitCode = 0\<rparr>, s1))
 \<and> (\<forall>created s1. build e s = (Inr created, s1) \<longrightarrow>
      main e s = (\<lparr>stdout = [''Build successful. Generated '' @ showNat (length created) @ '' post(s).''],
                   stderr = [], exitCode = 0\<rparr>, s1)
    \<and> (\<forall>c. publicNode s \<noteq> Some (File c))
    \<and> (\<exists>u s2. removeFiles e publicDirPath ''.html'' (snd (mkdir publicDirPath s)) = (Inr u, s2))
    \<and> (\<exists>posts. getPosts e postsDirPath s = (Inr posts, s)
          \<and> length created = length (filter isPublic posts)
          \<and> (\<forall>p\<in>set (filter isPublic posts).
                (\<exists>html fileData.
                    markdownToHTML e (getProp p ''body'') = Inr html
                  \<and> nunjucksRender e (getTemplatePath e ''post'') (setProp ''body'' (JStr html) p) = Inr fileData)
              \<and> (\<exists>c. readFile (pathResolve publicDirPath (postFileName e p)) s1 = Inr c)))
    \<and> (\<exists>fileData. nunjucksRender e (getTemplatePath e ''index'') [(''posts'', JArr (map JObj created))]
          = Inr fileData
          \<and> readFile (pathResolve publicDirPath ''index.html'') s1 = Inr fileData)
    \<and> (\<forall>ps n fileData err. postsNode s = Some (Dir ps) \<and> map_of ps n = Some (File fileData)
          \<and> endsWith (toLowerCase n) ''.md'' \<longrightarrow> frontMatter e fileData \<noteq> Inl err))
 \<and> ((\<exists>c. publicNode s = Some (File c))
      \<or> (\<exists>es posts p sub. publicNode s = Some (Dir es) \<and> fst (getPosts e postsDirPath s) = Inr posts
            \<and> p \<in> set posts \<and> isPublic p \<and> map_of es (postFileName e p) = Some (Dir sub))
      \<or> (\<exists>es sub. publicNode s = Some (Dir es) \<and> map_of es ''index.html'' = Some (Dir sub))
      \<or> (\<exists>err. fst (getPosts e postsDirPath s) = Inl err)
    \<longrightarrow> (\<exists>err. main e s = (\<lparr>stdout = [], stderr = [err], exitCode = 0\<rparr>, snd (build e s))))"
proof (intro conjI allI impI)
  fix err s1 assume "build e s = (Inl err, s1)"
  then show "main e s = (\<lparr>stdout = [], stderr = [err], exitCode = 0\<rparr>, s1)"
    by (simp add: main_def)
next
  fix created s1 assume b: "build e s = (Inr created, s1)"
  show "main e s = (\<lparr>stdout = [''Build successful. Generated '' @ showNat (length created) @ '' post(s).''],
                   stderr = [], exitCode = 0\<rparr>, s1)"
    using b by (simp add: main_def)
  obtain t1 s2 posts s4 u1 u2 vs where
    m: "mkdir publicDirPath s = (Inr u1, t1)" and
    rm: "removeFiles e publicDirPath ''.html'' t1 = (Inr u2, s2)" and
    pa: "promiseAll (writeOrder e) (createPostFile e) (filter isPublic posts) s2 = (Inr (filter isPublic posts), s4)" and
    cr: "created = arraySort (newestFirst e) (filter isPublic posts)"
    by (rule build_success[OF b])
  show "publicNode s \<noteq> Some (File c)" for c
    using m by (auto simp: mkdir_def)
  show "\<exists>u s2. removeFiles e publicDirPath ''.html'' (snd (mkdir publicDirPath s)) = (Inr u, s2)"
    using m rm by auto
  from build_success_posts[OF b] obtain posts' where
    gs: "getPosts e postsDirPath s = (Inr posts', s)"
    and cr': "created = arraySort (newestFirst e) (filter isPublic posts')" by blast
  have len: "length created = length (filter isPublic posts')"
    using mset_arraySort[of "newestFirst e" "filter isPublic posts'"] cr' by (metis size_mset)
  note files = build_success_files[OF b]
  have each: "(\<exists>html fileData. markdownToHTML e (getProp p ''body'') = Inr html
              \<and> nunjucksRender e (getTemplatePath e ''post'') (setProp ''body'' (JStr html) p) = Inr fileData)
            \<and> (\<exists>c. readFile (pathResolve publicDirPath (postFileName e p)) s1 = Inr c)"
    if "p \<in> set (filter isPublic posts')" for p
  proof -
    have pc: "p \<in> set created" using that cr' by (simp add: set_arraySort)
    then have "p \<in> set (filter isPublic posts)" using cr by (simp add: set_arraySort)
    from promiseAll_Inr_each[OF pa this] obtain t r t' where "createPostFile e p t = (Inr r, t')"
      by blast
    from createPostFile_cases[OF this] files pc show ?thesis by auto
  qed
  show "\<exists>posts. getPosts e postsDirPath s = (Inr posts, s)
          \<and> length created = length (filter isPublic posts)
          \<and> (\<forall>p\<in>set (filter isPublic posts).
                (\<exists>html fileData.
                    markdownToHTML e (getProp p ''body'') = Inr html
                  \<and> nunjucksRender e (getTemplatePath e ''post'') (setProp ''body'' (JStr html) p) = Inr fileData)
              \<and> (\<exists>c. readFile (pathResolve publicDirPath (postFileName e p)) s1 = Inr c))"
    using gs len each by blast
  show "\<exists>fileData. nunjucksRender e (getTemplatePath e ''index'') [(''posts'', JArr (map JObj created))]
          = Inr fileData
          \<and> readFile (pathResolve publicDirPath ''index.html'') s1 = Inr fileData"
    using files by blast
next
  fix created s1 ps n fileData err
  assume b: "build e s = (Inr created, s1)"
    and h: "postsNode s = Some (Dir ps) \<and> map_of ps n = Some (File fileData)
          \<and> endsWith (toLowerCase n) ''.md''"
  show "frontMatter e fileData \<noteq> Inl err"
  proof
    assume f: "frontMatter e fileData = Inl err"
    have "\<exists>err'. getPosts e postsDirPath s = (Inl err', s)"
      by (rule getPosts_malformed[OF _ _ _ f, of s postsDirPath ps n]) (use h in simp_all)
    then show False using build_success_posts[OF b] by auto
  qed
next
  assume h: "(\<exists>c. publicNode s = Some (File c))
      \<or> (\<exists>es posts p sub. publicNode s = Some (Dir es) \<and> fst (getPosts e postsDirPath s) = Inr posts
            \<and> p \<in> set posts \<and> isPublic p \<and> map_of es (postFileName e p) = Some (Dir sub))
      \<or> (\<exists>es sub. publicNode s = Some (Dir es) \<and> map_of es ''index.html'' = Some (Dir sub))
      \<or> (\<exists>err. fst (getPosts e postsDirPath s) = Inl err)"
  have "fst (build e s) \<noteq> Inr created" for created
  proof
    assume "fst (build e s) = Inr created"
    then have b: "build e s = (Inr created, snd (build e s))" by (simp add: prod_eq_iff)
    from build_success_posts[OF b] obtain posts' where
      gs: "getPosts e postsDirPath s = (Inr posts', s)"
      and cr': "created = arraySort (newestFirst e) (filter isPublic posts')" by blast
    note files = build_success_files[OF b]
    obtain u1 t1 where m: "mkdir publicDirPath s = (Inr u1, t1)"
      by (rule build_success[OF b])
    from h show False
    proof (elim disjE exE conjE)
      fix c assume "publicNode s = Some (File c)"
      then show False using m by (simp add: mkdir_def)
    next
      fix es posts p sub
      assume d: "publicNode s = Some (Dir es)" and g: "fst (getPosts e postsDirPath s) = Inr posts"
        and p: "p \<in> set posts" "isPublic p" and sd: "map_of es (postFileName e p) = Some (Dir sub)"
      have "posts' = posts" using gs g by simp
      then have "p \<in> set created" using p cr' by (simp add: set_arraySort)
      then obtain c where "readFile (pathResolve publicDirPath (postFileName e p)) (snd (build e s)) = Inr c"
        using files by blast
      then show False using build_keeps_subdir[OF d sd, of e] by simp
    next
      fix es sub
      assume d: "publicNode s = Some (Dir es)" and sd: "map_of es ''index.html'' = Some (Dir sub)"
      from files obtain c where "readFile (pathResolve publicDirPath ''index.html'') (snd (build e s)) = Inr c"
        by blast
      then show False using build_keeps_subdir[OF d sd, of e] by simp
    next
      fix err assume "fst (getPosts e postsDirPath s) = Inl err"
      then show False using gs by simp
    qed
  qed
  then obtain err where "fst (build e s) = Inl err" by (cases "fst (build e s)") auto
  then have "main e s = (\<lparr>stdout = [], stderr = [err], exitCode = 0\<rparr>, snd (build e s))"
    by (cases "build e s") (simp add: main_def)
  then show "\<exists>err. main e s = (\<lparr>stdout = [], stderr = [err], exitCode = 0\<rparr>, snd (build e s))"
    by blast
qed

theorem main_reports_outcome_witness:
  "main exampleEnv noPostsDisk
     = (\<lparr>stdout = [], stderr = [ENOENT ''posts''], exitCode = 0\<rparr>, snd (build exampleEnv noPostsDisk))
   \<and> main exampleEnv exampleDisk
     = (\<lparr>stdout = [''Build successful. Generated 2 post(s).''], stderr = [], exitCode = 0\<rparr>,
        snd (build exampleEnv exampleDisk))
   \<and> (\<exists>c. readFile (pathResolve publicDirPath (postFileName exampleEnv secondPost))
            (snd (build exampleEnv exampleDisk)) = Inr c)
   \<and> (\<exists>err. main exampleEnv (exampleDisk\<lparr>publicNode := Some (Dir [(''hello-world.html'', Dir [])])\<rparr>)
        = (\<lparr>stdout = [], stderr = [err], exitCode = 0\<rparr>,
           snd (build exampleEnv (exampleDisk\<lparr>publicNode := Some (Dir [(''hello-world.html'', Dir [])])\<rparr>))))"
proof -
  have f1: "fst (build exampleEnv noPostsDisk) = Inl (ENOENT ''posts'')" by code_simp
  have b1: "build exampleEnv noPostsDisk = (Inl (ENOENT ''posts''), snd (build exampleEnv noPostsDisk))"
    using f1 by (simp add: prod_eq_iff)
  have f2: "fst (build exampleEnv exampleDisk) = Inr [secondPost, helloPost]" by code_simp
  have b2: "build exampleEnv exampleDisk = (Inr [secondPost, helloPost], snd (build exampleEnv exampleDisk))"
    using f2 by (simp add: prod_eq_iff)
  have m: "''Build successful. Generated '' @ showNat (length [secondPost, helloPost]) @ '' post(s).''
      = ''Build successful. Generated 2 post(s).''"
    by code_simp
  have a: "main exampleEnv noPostsDisk
     = (\<lparr>stdout = [], stderr = [ENOENT ''posts''], exitCode = 0\<rparr>, snd (build exampleEnv noPostsDisk))"
    by (rule main_reports_outcome[THEN conjunct1, rule_format, OF b1])
  note t2 = main_reports_outcome[THEN conjunct2, THEN conjunct1, rule_format, OF b2]
  have b: "main exampleEnv exampleDisk
     = (\<lparr>stdout = [''Build successful. Generated 2 post(s).''], stderr = [], exitCode = 0\<rparr>,
        snd (build exampleEnv exampleDisk))"
    using t2[THEN conjunct1] unfolding m .
  have gp: "getPosts exampleEnv postsDirPath exampleDisk = (Inr [helloPost, secondPost, draftPost], exampleDisk)"
    by code_simp
  have sp: "secondPost \<in> set (filter isPublic [helloPost, secondPost, draftPost])" by code_simp
  from t2[THEN conjunct2, THEN conjunct2, THEN conjunct2, THEN conjunct1] gp
  have "\<forall>p\<in>set (filter isPublic [helloPost, secondPost, draftPost]).
          \<exists>c. readFile (pathResolve publicDirPath (postFileName exampleEnv p))
                (snd (build exampleEnv exampleDisk)) = Inr c"
    by auto
  then have c: "\<exists>c. readFile (pathResolve publicDirPath (postFileName exampleEnv secondPost))
            (snd (build exampleEnv exampleDisk)) = Inr c"
    using sp by blast
  let ?d = "exampleDisk\<lparr>publicNode := Some (Dir [(''hello-world.html'', Dir [])])\<rparr>"
  have g3: "fst (getPosts exampleEnv postsDirPath ?d) = Inr [helloPost, secondPost, draftPost]"
    by code_simp
  have k: "isPublic helloPost" "postFileName exampleEnv helloPost = ''hello-world.html''"
    by code_simp+
  have h: "\<exists>es posts p sub. publicNode ?d = Some (Dir es) \<and> fst (getPosts exampleEnv postsDirPath ?d) = Inr posts
            \<and> p \<in> set posts \<and> isPublic p \<and> map_of es (postFileName exampleEnv p) = Some (Dir sub)"
    unfolding g3 using k by (intro exI[of _ "[(''hello-world.html'', Dir [])]"]
        exI[of _ "[helloPost, secondPost, draftPost]"] exI[of _ helloPost] exI[of _ "[]"]) simp
  have d: "\<exists>err. main exampleEnv ?d = (\<lparr>stdout = [], stderr = [err], exitCode = 0\<rparr>, snd (build exampleEnv ?d))"
    by (rule main_reports_outcome[THEN conjunct2, THEN conjunct2, rule_format]) (use h in blast)
  show ?thesis using a b c d by (intro conjI)
qed

end
